theory Spec2Isabelle
  imports Main
begin

chapter \<open>The model of \<open>split.py\<close>\<close>

section \<open>Python values\<close>

text \<open>
  Python integers are unbounded: they are \<open>int\<close>. \<open>str\<close> of an integer is its decimal
  numeral, with a leading minus sign for a negative one.
\<close>

definition digit_char :: "nat \<Rightarrow> char" where
  "digit_char d = ''0123456789'' ! d"

fun str_nat :: "nat \<Rightarrow> string" where
  "str_nat n = (if n < 10 then [digit_char n] else str_nat (n div 10) @ [digit_char (n mod 10)])"

declare str_nat.simps [simp del]

definition str_int :: "int \<Rightarrow> string" where
  "str_int i = (if i < 0 then CHR ''-'' # str_nat (nat (- i)) else str_nat (nat i))"

text \<open>Reading a decimal numeral back, used to state that \<open>str_nat\<close> is the numeral.\<close>

definition digit_val :: "char \<Rightarrow> nat" where
  "digit_val c = of_char c - 48"

definition read_nat :: "string \<Rightarrow> nat" where
  "read_nat s = foldl (\<lambda>acc c. 10 * acc + digit_val c) 0 s"

text \<open>
  \<open>str.lower()\<close> on the ASCII letters; a \<open>char\<close> is a byte, and the hexadecimal digits
  the program lowers are ASCII.
\<close>

definition lower_char :: "char \<Rightarrow> char" where
  "lower_char c =
     (case map_of (zip ''ABCDEFGHIJKLMNOPQRSTUVWXYZ'' ''abcdefghijklmnopqrstuvwxyz'') c of
        Some l \<Rightarrow> l
      | None \<Rightarrow> c)"

definition lower :: "string \<Rightarrow> string" where
  "lower s = map lower_char s"

text \<open>
  What \<open>yaml.load\<close> with the safe loader returns, and what the cache stores: scalars, lists
  and mappings. A mapping is a Python \<open>dict\<close>: an association list in insertion order,
  whose keys are distinct. A Python \<open>float\<close> is a binary floating-point number: a finite
  one is \<open>m * 2 ^ e\<close> for integers \<open>m\<close> and \<open>e\<close>, and there are the two infinities and
  \<open>nan\<close>. Which float the loader reads from a numeral is not modelled.
\<close>

datatype pyfloat = Finite int int | Inf bool | NaN

datatype scalar = SNone | SBool bool | SInt int | SFloat pyfloat | SStr string

datatype yaml = Scalar scalar | YList "yaml list" | YDict "(string \<times> yaml) list"

text \<open>\<open>type(x)\<close>, which \<open>merge_configs\<close> compares.\<close>

datatype py_type = NoneType | BoolT | IntT | FloatT | StrT | ListT | DictT

fun scalar_type :: "scalar \<Rightarrow> py_type" where
  "scalar_type SNone = NoneType"
| "scalar_type (SBool _) = BoolT"
| "scalar_type (SInt _) = IntT"
| "scalar_type (SFloat _) = FloatT"
| "scalar_type (SStr _) = StrT"

fun py_type_of :: "yaml \<Rightarrow> py_type" where
  "py_type_of (Scalar s) = scalar_type s"
| "py_type_of (YList _) = ListT"
| "py_type_of (YDict _) = DictT"

text \<open>
  Python's \<open>==\<close> on these values: \<open>None\<close> equals \<open>None\<close> only and a string a string only;
  a \<open>bool\<close> is the integer 0 or 1, and integers and finite floats are compared by their
  exact values, whatever their types; an infinity equals itself only and \<open>nan\<close> equals
  nothing, itself included (the values compared come from two different loads, so
  no two of them are one object); lists are equal element by element, and two dicts are equal
  when they have the same number of keys and every key of the first has an equal value in
  the second, whatever the insertion order.
\<close>

fun num_of :: "scalar \<Rightarrow> (int \<times> int) option" where
  "num_of (SBool b) = Some (if b then 1 else 0, 0)"
| "num_of (SInt i) = Some (i, 0)"
| "num_of (SFloat (Finite m e)) = Some (m, e)"
| "num_of _ = None"

definition dyadic_eq :: "int \<times> int \<Rightarrow> int \<times> int \<Rightarrow> bool" where
  "dyadic_eq a b =
     (let d = min (snd a) (snd b)
      in fst a * 2 ^ nat (snd a - d) = fst b * 2 ^ nat (snd b - d))"

fun scalar_eq :: "scalar \<Rightarrow> scalar \<Rightarrow> bool" where
  "scalar_eq SNone t = (t = SNone)"
| "scalar_eq (SStr a) t = (t = SStr a)"
| "scalar_eq (SFloat (Inf p)) t = (t = SFloat (Inf p))"
| "scalar_eq (SFloat NaN) t = False"
| "scalar_eq s t =
     (case (num_of s, num_of t) of (Some a, Some b) \<Rightarrow> dyadic_eq a b | _ \<Rightarrow> False)"

function py_eq :: "yaml \<Rightarrow> yaml \<Rightarrow> bool"
  and py_eq_list :: "yaml list \<Rightarrow> yaml list \<Rightarrow> bool"
  and py_eq_items :: "(string \<times> yaml) list \<Rightarrow> (string \<times> yaml) list \<Rightarrow> bool" where
  "py_eq (Scalar s) (Scalar t) = scalar_eq s t"
| "py_eq (YList xs) (YList ys) = py_eq_list xs ys"
| "py_eq (YDict a) (YDict b) = (length a = length b \<and> py_eq_items a b)"
| "py_eq (Scalar s) (YList ys) = False"
| "py_eq (Scalar s) (YDict b) = False"
| "py_eq (YList xs) (Scalar t) = False"
| "py_eq (YList xs) (YDict b) = False"
| "py_eq (YDict a) (Scalar t) = False"
| "py_eq (YDict a) (YList ys) = False"
| "py_eq_list [] ys = (ys = [])"
| "py_eq_list (x # xs) [] = False"
| "py_eq_list (x # xs) (y # ys) = (py_eq x y \<and> py_eq_list xs ys)"
| "py_eq_items [] b = True"
| "py_eq_items ((k, v) # a) b =
     ((case map_of b k of None \<Rightarrow> False | Some v' \<Rightarrow> py_eq v v') \<and> py_eq_items a b)"
  by pat_completeness auto
termination
  by (relation "measure (\<lambda>x. case x of
          Inl (a, b) \<Rightarrow> size a
        | Inr (Inl (xs, ys)) \<Rightarrow> size_list size xs
        | Inr (Inr (a, b)) \<Rightarrow> size_list (size_prod (\<lambda>_. 0) size) a)") auto

text \<open>\<open>d[k] = v\<close> on a dict: the value of a present key is replaced in place, a new key
  goes last.\<close>

fun dict_set :: "'k \<Rightarrow> 'v \<Rightarrow> ('k \<times> 'v) list \<Rightarrow> ('k \<times> 'v) list" where
  "dict_set k v [] = [(k, v)]"
| "dict_set k v ((k', v') # d) = (if k = k' then (k, v) # d else (k', v') # dict_set k v d)"

text \<open>
  \<^verbatim>\<open>
  if k not in d:
      d[k] = []
  d[k].append(v)
  \<close>
\<close>

fun dict_append :: "'k \<Rightarrow> 'v \<Rightarrow> ('k \<times> 'v list) list \<Rightarrow> ('k \<times> 'v list) list" where
  "dict_append k v [] = [(k, [v])]"
| "dict_append k v ((k', l) # d) =
     (if k = k' then (k', l @ [v]) # d else (k', l) # dict_append k v d)"

text \<open>\<open>d.get(k)\<close>: the value, or \<open>None\<close> for a missing key.\<close>

definition config_get :: "(string \<times> yaml) list \<Rightarrow> string \<Rightarrow> yaml" where
  "config_get d k = (case map_of d k of None \<Rightarrow> Scalar SNone | Some v \<Rightarrow> v)"

definition cache_get :: "(string \<rightharpoonup> yaml) \<Rightarrow> string \<Rightarrow> yaml" where
  "cache_get d k = (case d k of None \<Rightarrow> Scalar SNone | Some v \<Rightarrow> v)"

section \<open>Errors\<close>

text \<open>
  Every way the modelled code stops early is a value. \<open>LogError\<close> with its message is
  a call of \<open>log.error\<close>.

  Modelled from the spec: \<open>log.error\<close> (module \<open>util.log\<close>, not among the sources) ends
  the run. The spec's error taxonomy lists a checksum mismatch, a duplicate segment name
  and a merge of incompatible value kinds as fatal errors that abort the entire run.
\<close>

datatype error = LogError string | IndexError | KeyError string | AttributeError | TypeError
  | UnboundLocalError | ZeroDivisionError

definition err_bind :: "error + 'a \<Rightarrow> ('a \<Rightarrow> error + 'b) \<Rightarrow> error + 'b" where
  "err_bind m f = (case m of Inl e \<Rightarrow> Inl e | Inr x \<Rightarrow> f x)"

section \<open>fmt_size\<close>

text \<open>
  \<^verbatim>\<open>
  def fmt_size(size):
      if size > 1000000:
          return str(size // 1000000) + " MB"
      elif size > 1000:
          return str(size // 1000) + " KB"
      else:
          return str(size) + " B"
  \<close>
  Python's \<open>//\<close> is floor division, which is \<open>div\<close> on \<open>int\<close>. The parameter
  \<open>size\<close> is written \<open>sz\<close>, \<open>size\<close> being a constant of HOL.
\<close>

definition fmt_size :: "int \<Rightarrow> string" where
  "fmt_size sz =
     (if sz > 1000000 then str_int (sz div 1000000) @ '' MB''
      else if sz > 1000 then str_int (sz div 1000) @ '' KB''
      else str_int sz @ '' B'')"

section \<open>merge_configs\<close>

text \<open>
  \<^verbatim>\<open>
  def merge_configs(main_config, additional_config):
      for curkey in additional_config:
          if curkey not in main_config:
              main_config[curkey] = additional_config[curkey]
          elif type(main_config[curkey]) != type(additional_config[curkey]):
              log.error(f"Type for key {curkey} in configs does not match")
          else:
              # keys exist and match, see if a list to append
              if type(main_config[curkey]) == list:
                  main_config[curkey] += additional_config[curkey]
              elif type(main_config[curkey]) == dict:
                  #need to merge sub areas
                  main_config[curkey] = merge_configs(main_config[curkey], additional_config[curkey])
              else:
                  #not a list or dictionary, must be a number or string, overwrite
                  main_config[curkey] = additional_config[curkey]
      return main_config
  \<close>
  The loop runs over the entries of \<open>additional_config\<close> in order and threads
  \<open>main_config\<close> through. The documents are values: the two arguments share no
  sub-object. The recursion on the sub-dictionaries descends into the value of the
  current entry, so the size of the second argument decreases.
\<close>

function merge_configs ::
  "(string \<times> yaml) list \<Rightarrow> (string \<times> yaml) list \<Rightarrow> error + (string \<times> yaml) list" where
  "merge_configs main_config [] = Inr main_config"
| "merge_configs main_config ((curkey, av) # rest) =
     (case map_of main_config curkey of
        None \<Rightarrow> merge_configs (dict_set curkey av main_config) rest
      | Some mv \<Rightarrow>
          if py_type_of mv \<noteq> py_type_of av
          then Inl (LogError (''Type for key '' @ curkey @ '' in configs does not match''))
          else (case (mv, av) of
                  (YList xs, YList ys) \<Rightarrow>
                    merge_configs (dict_set curkey (YList (xs @ ys)) main_config) rest
                | (YDict m, YDict a) \<Rightarrow>
                    (case merge_configs m a of
                       Inl e \<Rightarrow> Inl e
                     | Inr r \<Rightarrow> merge_configs (dict_set curkey (YDict r) main_config) rest)
                | _ \<Rightarrow> merge_configs (dict_set curkey av main_config) rest))"
  by pat_completeness auto
termination
  by (relation "measure (\<lambda>(m, a). size_list (size_prod (\<lambda>_. 0) size) a)") auto

declare merge_configs.simps [simp del]

text \<open>One iteration of the loop, and what it leaves under its key.\<close>

definition merge_entry ::
  "(string \<times> yaml) list \<Rightarrow> string \<Rightarrow> yaml \<Rightarrow> error + (string \<times> yaml) list" where
  "merge_entry m k av = merge_configs m [(k, av)]"

definition merged_value :: "yaml option \<Rightarrow> yaml \<Rightarrow> yaml option \<Rightarrow> bool" where
  "merged_value old av new =
     (case old of
        None \<Rightarrow> new = Some av
      | Some (YList xs) \<Rightarrow> (\<exists>ys. av = YList ys \<and> new = Some (YList (xs @ ys)))
      | Some (YDict m') \<Rightarrow>
          (\<exists>a' r'. av = YDict a' \<and> merge_configs m' a' = Inr r' \<and> new = Some (YDict r'))
      | Some (Scalar s) \<Rightarrow>
          (\<exists>t. av = Scalar t \<and> scalar_type s = scalar_type t \<and> new = Some av))"

section \<open>Symbols and segments\<close>

text \<open>
  Modelled from the spec: the class of the symbols in \<open>symbols.all_symbols\<close> (module
  \<open>util.symbols\<close>, not among the sources). The spec's data model gives a symbol a name, a
  vram address and an optional ROM address; \<open>get_segment_symbols\<close> reads
  \<open>symbol.vram_start\<close> and \<open>symbol.rom\<close>.
\<close>

record symbol =
  sym_name :: string
  vram_start :: int
  rom :: "int option"

type_synonym symbol_dict = "(int \<times> symbol list) list"

text \<open>
  Modelled from the spec: the class \<open>Segment\<close> (module \<open>segtypes.segment\<close>, not among the
  sources), with the attributes and the results of the methods that \<open>split.py\<close> reads,
  after the spec's segment type contract: \<open>type\<close> (here \<open>seg_type\<close>), \<open>size\<close>
  (\<open>seg_size\<close>), \<open>cache()\<close> (\<open>seg_cache\<close>, the fingerprint), \<open>unique_id()\<close>,
  \<open>is_name_default()\<close>, \<open>should_scan()\<close>, \<open>should_split()\<close>, and the address range of the
  spec's data model, whose vram part is present only for a segment mapped into the
  address space. A method without arguments is the field of its result: scanning does
  not change what the other methods return.
\<close>

record segment =
  name :: string
  seg_type :: string
  rom_start :: int
  rom_end :: "int option"
  seg_vram_start :: "int option"
  seg_vram_end :: "int option"
  seg_size :: "int option"
  require_unique_name :: bool
  needs_symbols :: bool
  is_name_default :: bool
  should_scan :: bool
  should_split :: bool
  seg_cache :: yaml
  unique_id :: string
  given_seg_symbols :: symbol_dict
  given_ext_symbols :: symbol_dict
  did_run :: bool

text \<open>
  Modelled from the spec: \<open>Segment.contains_vram\<close> and \<open>Segment.contains_rom\<close>, absent
  from the sources. Containment is half-open, \<open>[start, end)\<close>; a segment without a vram
  range contains no vram address. The spec leaves containment in a range whose end is
  unresolved undefined; no theorem below depends on that case.
\<close>

definition contains_vram :: "segment \<Rightarrow> int \<Rightarrow> bool" where
  "contains_vram segment vram =
     (case (seg_vram_start segment, seg_vram_end segment) of
        (Some s, Some e) \<Rightarrow> s \<le> vram \<and> vram < e
      | _ \<Rightarrow> False)"

definition contains_rom :: "segment \<Rightarrow> int \<Rightarrow> bool" where
  "contains_rom segment a =
     (case rom_end segment of Some e \<Rightarrow> rom_start segment \<le> a \<and> a < e | None \<Rightarrow> False)"

text \<open>
  Modelled from the spec: \<open>symbols.is_symbol_isolated\<close>, absent from the sources. The
  address of the symbol is isolated when exactly one of the segments contains that vram
  address. The segments are those of the list the caller passes.
\<close>

definition is_symbol_isolated :: "symbol \<Rightarrow> segment list \<Rightarrow> bool" where
  "is_symbol_isolated symbol all_segments =
     (length (filter (\<lambda>s. contains_vram s (vram_start symbol)) all_segments) = 1)"

text \<open>The truth value of \<open>symbol.rom\<close>: \<open>None\<close> and the address 0 are false.\<close>

definition truthy :: "int option \<Rightarrow> bool" where
  "truthy r = (case r of None \<Rightarrow> False | Some a \<Rightarrow> a \<noteq> 0)"

section \<open>get_segment_symbols\<close>

text \<open>
  \<^verbatim>\<open>
  def get_segment_symbols(segment, all_segments):
      seg_syms = {}
      other_syms = {}

      for symbol in symbols.all_symbols:
          if symbols.is_symbol_isolated(symbol, all_segments) and not symbol.rom:
              if segment.contains_vram(symbol.vram_start):
                  if symbol.vram_start not in seg_syms:
                      seg_syms[symbol.vram_start] = []
                  seg_syms[symbol.vram_start].append(symbol)
              else:
                  if symbol.vram_start not in other_syms:
                      other_syms[symbol.vram_start] = []
                  other_syms[symbol.vram_start].append(symbol)
          else:
              if symbol.rom and segment.contains_rom(symbol.rom):
                  if symbol.vram_start not in seg_syms:
                      seg_syms[symbol.vram_start] = []
                  seg_syms[symbol.vram_start].append(symbol)
              else:
                  if symbol.vram_start not in other_syms:
                      other_syms[symbol.vram_start] = []
                  other_syms[symbol.vram_start].append(symbol)

      return seg_syms, other_syms
  \<close>
  The global table \<open>symbols.all_symbols\<close> is the first argument of the model.
\<close>

fun symbols_loop ::
  "segment \<Rightarrow> segment list \<Rightarrow> symbol list \<Rightarrow> symbol_dict \<times> symbol_dict \<Rightarrow> symbol_dict \<times> symbol_dict" where
  "symbols_loop segment all_segments [] (seg_syms, other_syms) = (seg_syms, other_syms)"
| "symbols_loop segment all_segments (symbol # rest) (seg_syms, other_syms) =
     symbols_loop segment all_segments rest
       (if is_symbol_isolated symbol all_segments \<and> \<not> truthy (rom symbol) then
          (if contains_vram segment (vram_start symbol)
           then (dict_append (vram_start symbol) symbol seg_syms, other_syms)
           else (seg_syms, dict_append (vram_start symbol) symbol other_syms))
        else
          (if truthy (rom symbol) \<and> contains_rom segment (the (rom symbol))
           then (dict_append (vram_start symbol) symbol seg_syms, other_syms)
           else (seg_syms, dict_append (vram_start symbol) symbol other_syms)))"

definition get_segment_symbols ::
  "symbol list \<Rightarrow> segment \<Rightarrow> segment list \<Rightarrow> symbol_dict \<times> symbol_dict" where
  "get_segment_symbols all_symbols segment all_segments =
     symbols_loop segment all_segments all_symbols ([], [])"

text \<open>
  Reading the result: the list under a key (empty for a missing key), the number of symbols
  in a mapping, and the condition under which the loop puts a symbol into \<open>seg_syms\<close>.
\<close>

definition entries :: "('k \<times> 'v list) list \<Rightarrow> 'k \<Rightarrow> 'v list" where
  "entries d k = (case map_of d k of None \<Rightarrow> [] | Some l \<Rightarrow> l)"

definition total_symbols :: "('k \<times> 'v list) list \<Rightarrow> nat" where
  "total_symbols d = sum_list (map (\<lambda>(k, l). length l) d)"

definition owned_by :: "segment \<Rightarrow> segment list \<Rightarrow> symbol \<Rightarrow> bool" where
  "owned_by segment all_segments symbol =
     (if is_symbol_isolated symbol all_segments \<and> \<not> truthy (rom symbol)
      then contains_vram segment (vram_start symbol)
      else truthy (rom symbol) \<and> contains_rom segment (the (rom symbol)))"

section \<open>initialize_segments\<close>

text \<open>
  Modelled from the spec: the static methods \<open>Segment.parse_segment_type\<close>,
  \<open>Segment.get_class_for_type\<close>, \<open>Segment.parse_segment_start\<close> and the type-specific
  part of \<open>Segment.from_yaml\<close>, all absent from the sources. They are parameters of the
  model, each of which may fail (the spec: an unknown type tag fails), and every theorem
  about \<open>initialize_segments\<close> holds for all of them.
\<close>

record 'cls segment_ops =
  parse_segment_type :: "yaml \<Rightarrow> error + string"
  get_class_for_type :: "string \<Rightarrow> error + 'cls"
  parse_segment_start :: "yaml \<Rightarrow> error + int"
  construct :: "'cls \<Rightarrow> yaml \<Rightarrow> int \<Rightarrow> int \<Rightarrow> error + segment"

text \<open>
  Modelled from the spec: \<open>Segment.from_yaml\<close>, absent from the sources. The segment type
  contract is \<open>parse(descriptor, resolved_range) -> Segment\<close>: the segment built has the
  range it is given.
\<close>

definition from_yaml :: "'cls segment_ops \<Rightarrow> 'cls \<Rightarrow> yaml \<Rightarrow> int \<Rightarrow> int \<Rightarrow> error + segment" where
  "from_yaml ops segment_class seg_yaml this_start next_start =
     err_bind (construct ops segment_class seg_yaml this_start next_start)
       (\<lambda>segment. Inr (segment\<lparr>rom_start := this_start, rom_end := Some next_start\<rparr>))"

text \<open>
  \<^verbatim>\<open>
  def initialize_segments(config_segments: Union[dict, list]) -> List[Segment]:
      seen_segment_names: Set[str] = set()
      ret = []

      for i, seg_yaml in enumerate(config_segments):
          # rompos marker
          if isinstance(seg_yaml, list) and len(seg_yaml) == 1:
              continue

          seg_type = Segment.parse_segment_type(seg_yaml)

          segment_class = Segment.get_class_for_type(seg_type)

          this_start = Segment.parse_segment_start(seg_yaml)
          next_start = Segment.parse_segment_start(config_segments[i + 1])

          segment: Segment = Segment.from_yaml(segment_class, seg_yaml, this_start, next_start)

          if segment.require_unique_name:
              if segment.name in seen_segment_names:
                  log.error(f"segment name '{segment.name}' is not unique")

              seen_segment_names.add(segment.name)

          ret.append(segment)

      return ret
  \<close>
  The loop is a recursion on the entries from index \<open>i\<close> on: \<open>seg_yaml\<close> is the head and
  \<open>config_segments[i + 1]\<close> the head of the rest, an \<open>IndexError\<close> when the rest is empty.
  The index is read after the type, the class and the start of the entry itself.
\<close>

fun is_marker :: "yaml \<Rightarrow> bool" where
  "is_marker (YList [x]) = True"
| "is_marker _ = False"

fun init_loop ::
  "'cls segment_ops \<Rightarrow> string set \<Rightarrow> segment list \<Rightarrow> yaml list \<Rightarrow> error + segment list" where
  "init_loop ops seen_segment_names ret [] = Inr ret"
| "init_loop ops seen_segment_names ret (seg_yaml # rest) =
     (if is_marker seg_yaml then init_loop ops seen_segment_names ret rest
      else
        err_bind (parse_segment_type ops seg_yaml) (\<lambda>seg_type.
        err_bind (get_class_for_type ops seg_type) (\<lambda>segment_class.
        err_bind (parse_segment_start ops seg_yaml) (\<lambda>this_start.
        err_bind (case rest of [] \<Rightarrow> Inl IndexError | nxt # _ \<Rightarrow> Inr nxt) (\<lambda>nxt.
        err_bind (parse_segment_start ops nxt) (\<lambda>next_start.
        err_bind (from_yaml ops segment_class seg_yaml this_start next_start) (\<lambda>segment.
          if require_unique_name segment then
            if name segment \<in> seen_segment_names
            then Inl (LogError (''segment name '' @ [CHR 0x27] @ name segment @ [CHR 0x27]
                                @ '' is not unique''))
            else init_loop ops (insert (name segment) seen_segment_names) (ret @ [segment]) rest
          else init_loop ops seen_segment_names (ret @ [segment]) rest)))))))"

definition initialize_segments :: "'cls segment_ops \<Rightarrow> yaml list \<Rightarrow> error + segment list" where
  "initialize_segments ops config_segments = init_loop ops {} [] config_segments"

text \<open>
  Reading the result: every entry that is not a marker, with the entry after it, and what
  it means for a segment to have the range these two declare.
\<close>

definition real_pairs :: "yaml list \<Rightarrow> (yaml \<times> yaml) list" where
  "real_pairs cfg = filter (\<lambda>p. \<not> is_marker (fst p)) (zip cfg (tl cfg))"

definition resolved :: "'cls segment_ops \<Rightarrow> segment \<Rightarrow> yaml \<times> yaml \<Rightarrow> bool" where
  "resolved ops seg p =
     (parse_segment_start ops (fst p) = Inr (rom_start seg)
      \<and> (\<exists>e. parse_segment_start ops (snd p) = Inr e \<and> rom_end seg = Some e))"

section \<open>main\<close>

text \<open>
  The model of \<open>main\<close> starts where the target file has been read and covers the checksum
  comparison, the loading and the invalidation of the cache, the initialization of the
  segments, the scan loop, the split loop and the division by the size of the target in
  \<open>do_statistics\<close>. Logging, the \<open>options\<close> module, the output directory, the linker
  script, the lists of undefined symbols, the warnings, the text of the statistics and the
  saving of the cache are not modelled.

  \<^verbatim>\<open>
  if "sha1" in config:
      sha1 = hashlib.sha1(rom_bytes).hexdigest()
      e_sha1 = config["sha1"].lower()
      if e_sha1 != sha1:
          log.error(f"sha1 mismatch: expected {e_sha1}, was {sha1}")
  \<close>
  The digest function of \<open>hashlib\<close> is a parameter, \<open>sha1_hexdigest\<close>. A declared checksum
  that is not a string has no method \<open>lower\<close>.
\<close>

type_synonym bytes = "char list"

definition check_sha1 :: "(bytes \<Rightarrow> string) \<Rightarrow> (string \<times> yaml) list \<Rightarrow> bytes \<Rightarrow> error + unit" where
  "check_sha1 sha1_hexdigest config rom_bytes =
     (case map_of config ''sha1'' of
        None \<Rightarrow> Inr ()
      | Some (Scalar (SStr declared)) \<Rightarrow>
          (let sha1 = sha1_hexdigest rom_bytes; e_sha1 = lower declared
           in if e_sha1 \<noteq> sha1
              then Inl (LogError (''sha1 mismatch: expected '' @ e_sha1 @ '', was '' @ sha1))
              else Inr ())
      | Some _ \<Rightarrow> Inl AttributeError)"

text \<open>
  \<^verbatim>\<open>
  if use_cache:
      try:
          with options.get_cache_path().open("rb") as f3:
              cache = pickle.load(f3)

          if verbose:
              log.write(f"Loaded cache ({len(cache.keys())} items)")
      except Exception:
          cache = {}
  else:
      cache = {}
  \<close>
  Opening and unpickling the file is an input of the model: either the exception raised,
  or the object loaded. A cache that this program has saved is a dict, a map from segment
  ids to fingerprints; a file that unpickles to anything else (a list, a number) is
  \<open>PNotDict\<close>, an object without the methods \<open>keys\<close> and \<open>get\<close>. With \<open>verbose\<close> on,
  \<open>cache.keys()\<close> is called inside the \<open>try\<close>, where its \<open>AttributeError\<close> is caught;
  with \<open>verbose\<close> off the object loaded is the cache as it is.
\<close>

datatype load_exception = FileNotFoundError | PermissionError | UnpicklingError | EOFError
  | OtherException string

datatype unpickled = PDict "string \<rightharpoonup> yaml" | PNotDict

definition load_cache :: "bool \<Rightarrow> bool \<Rightarrow> load_exception + unpickled \<Rightarrow> unpickled" where
  "load_cache use_cache verbose load_result =
     (if use_cache
      then (case load_result of
              Inl exn \<Rightarrow> PDict Map.empty
            | Inr loaded \<Rightarrow>
                if verbose
                then (case loaded of PDict d \<Rightarrow> PDict d | PNotDict \<Rightarrow> PDict Map.empty)
                else loaded)
      else PDict Map.empty)"

text \<open>
  \<^verbatim>\<open>
  # invalidate entire cache if options change
  if use_cache and cache.get("__options__") != config.get("options"):
      if verbose:
          log.write("Options changed, invalidating cache")

      cache = {
          "__options__": config.get("options"),
      }
  \<close>
  \<open>cache.get\<close> is evaluated when \<open>use_cache\<close> holds, and is an \<open>AttributeError\<close> on an
  object that is not a dict; this is outside the \<open>try\<close>. With \<open>use_cache\<close> off the cache
  is the empty dict of the \<open>else\<close> branch above, so the last case below does not arise in
  \<open>main\<close>. The result is the dict the loops run with.
\<close>

definition invalidate_cache ::
  "bool \<Rightarrow> unpickled \<Rightarrow> (string \<times> yaml) list \<Rightarrow> error + (string \<rightharpoonup> yaml)" where
  "invalidate_cache use_cache cache config =
     (case cache of
        PDict d \<Rightarrow>
          if use_cache \<and> \<not> py_eq (cache_get d ''__options__'') (config_get config ''options'')
          then Inr [''__options__'' \<mapsto> config_get config ''options'']
          else Inr d
      | PNotDict \<Rightarrow> if use_cache then Inl AttributeError else Inr Map.empty)"

text \<open>
  The local variables of \<open>main\<close> that the two loops read and write. \<open>last_typ\<close> is the
  variable \<open>typ\<close>, unbound before the first iteration of the scan loop; \<open>segments_done\<close>
  is \<open>all_segments\<close> with the segments as the scan loop leaves them; \<open>split_calls\<close> records
  the calls of \<open>segment.split\<close>.
\<close>

record run_state =
  seg_sizes :: "string \<rightharpoonup> int"
  seg_split :: "string \<rightharpoonup> int"
  seg_cached :: "string \<rightharpoonup> int"
  processed_segments :: "segment list"
  segments_done :: "segment list"
  last_typ :: "string option"
  cache :: "string \<rightharpoonup> yaml"
  split_calls :: "segment list"

definition init_state :: "(string \<rightharpoonup> yaml) \<Rightarrow> run_state" where
  "init_state c =
     \<lparr>seg_sizes = Map.empty, seg_split = Map.empty, seg_cached = Map.empty,
      processed_segments = [], segments_done = [], last_typ = None, cache = c,
      split_calls = []\<rparr>"

text \<open>
  \<^verbatim>\<open>
  for segment in all_segments:
      typ = segment.type
      if segment.type == "bin" and segment.is_name_default():
          typ = "unk"

      if typ not in seg_sizes:
          seg_sizes[typ] = 0
          seg_split[typ] = 0
          seg_cached[typ] = 0
      seg_sizes[typ] += 0 if segment.size is None else segment.size

      if segment.should_scan():
          # Check cache but don't write anything
          if use_cache:
              if segment.cache() == cache.get(segment.unique_id()):
                  continue

          if segment.needs_symbols:
              segment_symbols, other_symbols = get_segment_symbols(segment, all_segments)
              segment.given_seg_symbols = segment_symbols
              segment.given_ext_symbols = other_symbols

          segment.did_run = True
          segment.scan(rom_bytes)

          processed_segments.append(segment)

          seg_split[typ] += 1

      log.dot(status=segment.status())
  \<close>
\<close>

definition bucket :: "segment \<Rightarrow> string" where
  "bucket segment =
     (if seg_type segment = ''bin'' \<and> is_name_default segment then ''unk'' else seg_type segment)"

definition count_size :: "segment \<Rightarrow> run_state \<Rightarrow> run_state" where
  "count_size segment st =
     (let t = bucket segment;
          sz = (case seg_size segment of None \<Rightarrow> 0 | Some n \<Rightarrow> n)
      in case seg_sizes st t of
           None \<Rightarrow> st\<lparr>seg_sizes := (seg_sizes st)(t \<mapsto> 0 + sz),
                      seg_split := (seg_split st)(t \<mapsto> 0),
                      seg_cached := (seg_cached st)(t \<mapsto> 0),
                      last_typ := Some t\<rparr>
         | Some n \<Rightarrow> st\<lparr>seg_sizes := (seg_sizes st)(t \<mapsto> n + sz), last_typ := Some t\<rparr>)"

definition cache_hit :: "(string \<rightharpoonup> yaml) \<Rightarrow> segment \<Rightarrow> bool" where
  "cache_hit c segment = py_eq (seg_cache segment) (cache_get c (unique_id segment))"

definition scan_segment :: "symbol list \<Rightarrow> segment list \<Rightarrow> segment \<Rightarrow> segment" where
  "scan_segment all_symbols all_segments segment =
     (let s1 = (if needs_symbols segment
                then (case get_segment_symbols all_symbols segment all_segments of
                        (segment_symbols, other_symbols) \<Rightarrow>
                          segment\<lparr>given_seg_symbols := segment_symbols,
                                  given_ext_symbols := other_symbols\<rparr>)
                else segment)
      in s1\<lparr>did_run := True\<rparr>)"

fun scan_loop ::
  "bool \<Rightarrow> symbol list \<Rightarrow> segment list \<Rightarrow> segment list \<Rightarrow> run_state \<Rightarrow> error + run_state" where
  "scan_loop use_cache all_symbols all_segments [] st = Inr st"
| "scan_loop use_cache all_symbols all_segments (segment # rest) st =
     (let st1 = count_size segment st in
      if should_scan segment then
        if use_cache \<and> cache_hit (cache st1) segment
        then scan_loop use_cache all_symbols all_segments rest
               (st1\<lparr>segments_done := segments_done st1 @ [segment]\<rparr>)
        else
          (let scanned = scan_segment all_symbols all_segments segment in
           case seg_split st1 (bucket segment) of
             None \<Rightarrow> Inl (KeyError (bucket segment))
           | Some n \<Rightarrow>
               scan_loop use_cache all_symbols all_segments rest
                 (st1\<lparr>processed_segments := processed_segments st1 @ [scanned],
                       segments_done := segments_done st1 @ [scanned],
                       seg_split := (seg_split st1)(bucket segment \<mapsto> n + 1)\<rparr>))
      else scan_loop use_cache all_symbols all_segments rest
             (st1\<lparr>segments_done := segments_done st1 @ [segment]\<rparr>))"

text \<open>
  \<^verbatim>\<open>
  for segment in all_segments:
      if use_cache:
          cached = segment.cache()

          if cached == cache.get(segment.unique_id()):
              # Cache hit
              seg_cached[typ] += 1
              continue
          else:
              # Cache miss; split
              cache[segment.unique_id()] = cached

      if segment.should_split():
          segment.split(rom_bytes)

      log.dot(status=segment.status())
  \<close>
  \<open>typ\<close> is not assigned in this loop: it is the variable the scan loop has left.
\<close>

definition do_split :: "segment \<Rightarrow> run_state \<Rightarrow> run_state" where
  "do_split segment st =
     (if should_split segment then st\<lparr>split_calls := split_calls st @ [segment]\<rparr> else st)"

fun split_loop :: "bool \<Rightarrow> segment list \<Rightarrow> run_state \<Rightarrow> error + run_state" where
  "split_loop use_cache [] st = Inr st"
| "split_loop use_cache (segment # rest) st =
     (if use_cache then
        (let cached = seg_cache segment in
         if py_eq cached (cache_get (cache st) (unique_id segment)) then
           (case last_typ st of
              None \<Rightarrow> Inl UnboundLocalError
            | Some t \<Rightarrow>
                (case seg_cached st t of
                   None \<Rightarrow> Inl (KeyError t)
                 | Some n \<Rightarrow>
                     split_loop use_cache rest (st\<lparr>seg_cached := (seg_cached st)(t \<mapsto> n + 1)\<rparr>)))
         else split_loop use_cache rest
                (do_split segment (st\<lparr>cache := (cache st)(unique_id segment \<mapsto> cached)\<rparr>)))
      else split_loop use_cache rest (do_split segment st))"

definition run_passes ::
  "bool \<Rightarrow> symbol list \<Rightarrow> (string \<rightharpoonup> yaml) \<Rightarrow> segment list \<Rightarrow> error + run_state" where
  "run_passes use_cache all_symbols c all_segments =
     err_bind (scan_loop use_cache all_symbols all_segments all_segments (init_state c))
       (\<lambda>st. split_loop use_cache (segments_done st) st)"

text \<open>
  \<open>initialize_segments(config["segments"])\<close>: the function enumerates whatever the value
  is. A list is the case above. A string is enumerated character by character and indexed
  like a list. A dict is enumerated by its keys, so an empty one gives no segments; the
  first key of a non-empty one is a string, not a marker, and \<open>config_segments[0 + 1]\<close> is
  then the lookup of the key 1, which the keys, being strings, do not include. Any other
  value is not iterable.
\<close>

definition initialize_config_segments ::
  "'cls segment_ops \<Rightarrow> (string \<times> yaml) list \<Rightarrow> error + segment list" where
  "initialize_config_segments ops config =
     (case map_of config ''segments'' of
        None \<Rightarrow> Inl (KeyError ''segments'')
      | Some (YList l) \<Rightarrow> initialize_segments ops l
      | Some (Scalar (SStr s)) \<Rightarrow> initialize_segments ops (map (\<lambda>c. Scalar (SStr [c])) s)
      | Some (YDict []) \<Rightarrow> Inr []
      | Some (YDict ((k, v) # kvs)) \<Rightarrow>
          err_bind (parse_segment_type ops (Scalar (SStr k))) (\<lambda>seg_type.
          err_bind (get_class_for_type ops seg_type) (\<lambda>segment_class.
          err_bind (parse_segment_start ops (Scalar (SStr k))) (\<lambda>this_start.
            Inl (KeyError ''1''))))
      | Some (Scalar _) \<Rightarrow> Inl TypeError)"

text \<open>
  \<^verbatim>\<open>
  def do_statistics(seg_sizes, rom_bytes, seg_split, seg_cached):
      unk_size = seg_sizes.get("unk", 0)
      rest_size = 0
      total_size = len(rom_bytes)

      for typ in seg_sizes:
          if typ != "unk":
              rest_size += seg_sizes[typ]

      known_ratio = rest_size / total_size
      unk_ratio = unk_size / total_size
  \<close>
  and then the report is written. The division comes before every line of the report and
  is a \<open>ZeroDivisionError\<close> for an empty target; this is what the model keeps.
\<close>

definition do_statistics :: "bytes \<Rightarrow> error + unit" where
  "do_statistics rom_bytes = (if length rom_bytes = 0 then Inl ZeroDivisionError else Inr ())"

text \<open>
  \<open>main\<close> in the order of the source: the checksum, then the cache, then the segments,
  then the two loops, then the statistics. \<open>all_symbols\<close> is the symbol table that
  \<open>symbols.initialize\<close> has filled, empty when the code mode is off.
\<close>

definition after_checksum ::
  "'cls segment_ops \<Rightarrow> symbol list \<Rightarrow> load_exception + unpickled \<Rightarrow>
   (string \<times> yaml) list \<Rightarrow> bytes \<Rightarrow> bool \<Rightarrow> bool \<Rightarrow> error + run_state" where
  "after_checksum ops all_symbols load_result config rom_bytes use_cache verbose =
     err_bind (invalidate_cache use_cache (load_cache use_cache verbose load_result) config)
       (\<lambda>c.
     err_bind (initialize_config_segments ops config) (\<lambda>all_segments.
     err_bind (run_passes use_cache all_symbols c all_segments) (\<lambda>st.
     err_bind (do_statistics rom_bytes) (\<lambda>_. Inr st))))"

definition main ::
  "'cls segment_ops \<Rightarrow> (bytes \<Rightarrow> string) \<Rightarrow> symbol list \<Rightarrow> load_exception + unpickled \<Rightarrow>
   (string \<times> yaml) list \<Rightarrow> bytes \<Rightarrow> bool \<Rightarrow> bool \<Rightarrow> error + run_state" where
  "main ops sha1_hexdigest all_symbols load_result config rom_bytes use_cache verbose =
     err_bind (check_sha1 sha1_hexdigest config rom_bytes)
       (\<lambda>_. after_checksum ops all_symbols load_result config rom_bytes use_cache verbose)"

text \<open>
  Reading the state of a run: the counters of a type are created together, no cache hit
  has been counted, an iteration of the scan loop that is not skipped, and the cache after
  every segment of a list has stored its fingerprint.
\<close>

definition counters_ok :: "run_state \<Rightarrow> bool" where
  "counters_ok st =
     (\<forall>t. seg_sizes st t \<noteq> None \<longrightarrow> seg_split st t \<noteq> None \<and> seg_cached st t \<noteq> None)"

definition no_hits_counted :: "run_state \<Rightarrow> bool" where
  "no_hits_counted st = (\<forall>t n. seg_cached st t = Some n \<longrightarrow> n = 0)"

definition scan_one :: "symbol list \<Rightarrow> segment list \<Rightarrow> segment \<Rightarrow> run_state \<Rightarrow> run_state" where
  "scan_one all_symbols all_segments segment st =
     (let st1 = count_size segment st in
      if should_scan segment
      then st1\<lparr>processed_segments :=
                 processed_segments st1 @ [scan_segment all_symbols all_segments segment],
               segments_done := segments_done st1 @ [scan_segment all_symbols all_segments segment],
               seg_split := (seg_split st1)(bucket segment \<mapsto>
                  (case seg_split st1 (bucket segment) of None \<Rightarrow> 0 | Some n \<Rightarrow> n) + 1)\<rparr>
      else st1\<lparr>segments_done := segments_done st1 @ [segment]\<rparr>)"

definition store_all :: "segment list \<Rightarrow> (string \<rightharpoonup> yaml) \<Rightarrow> (string \<rightharpoonup> yaml)" where
  "store_all segs c = fold (\<lambda>s c. c(unique_id s \<mapsto> seg_cache s)) segs c"

section \<open>A small configuration\<close>

text \<open>
  Modelled from the spec: one implementation of the segment type contract, the classes
  being absent from the sources. A descriptor is a list \<open>[start, type, name]\<close> or a mapping
  with the fields \<open>start\<close>, \<open>type\<close> and \<open>name\<close>; the types are \<open>bin\<close> and \<open>code\<close>; the id is
  the type and the name, the fingerprint the descriptor and the end of the range; the
  vram range has the size of the ROM range.
\<close>

definition mk_segment :: "string \<Rightarrow> string \<Rightarrow> int \<Rightarrow> int \<Rightarrow> int \<Rightarrow> segment" where
  "mk_segment t n s e v =
     \<lparr>name = n, seg_type = t, rom_start = s, rom_end = Some e,
      seg_vram_start = Some v, seg_vram_end = Some (v + (e - s)), seg_size = Some (e - s),
      require_unique_name = True, needs_symbols = True, is_name_default = False,
      should_scan = True, should_split = True,
      seg_cache = YList [Scalar (SInt s), Scalar (SStr t), Scalar (SStr n), Scalar (SInt e)],
      unique_id = t @ ''_'' @ n,
      given_seg_symbols = [], given_ext_symbols = [], did_run = False\<rparr>"

definition basic_ops :: "unit segment_ops" where
  "basic_ops =
     \<lparr>parse_segment_type = (\<lambda>y. case y of
          YList (_ # Scalar (SStr t) # _) \<Rightarrow> Inr t
        | YDict kv \<Rightarrow>
            (case map_of kv ''type'' of
               Some (Scalar (SStr t)) \<Rightarrow> Inr t
             | _ \<Rightarrow> Inl (KeyError ''type''))
        | _ \<Rightarrow> Inl TypeError),
      get_class_for_type = (\<lambda>t. if t \<in> {''bin'', ''code''} then Inr ()
          else Inl (LogError (''could not load segment type '' @ t))),
      parse_segment_start = (\<lambda>y. case y of
          YList (Scalar (SInt a) # _) \<Rightarrow> Inr a
        | YDict kv \<Rightarrow>
            (case map_of kv ''start'' of
               Some (Scalar (SInt a)) \<Rightarrow> Inr a
             | _ \<Rightarrow> Inl (KeyError ''start''))
        | _ \<Rightarrow> Inl TypeError),
      construct = (\<lambda>cls y s e. case y of
          YList (_ # Scalar (SStr t) # Scalar (SStr n) # _) \<Rightarrow>
            Inr (mk_segment t n s e (0x80000000 + s))
        | YDict kv \<Rightarrow>
            (case (map_of kv ''type'', map_of kv ''name'') of
               (Some (Scalar (SStr t)), Some (Scalar (SStr n))) \<Rightarrow>
                 Inr (mk_segment t n s e (0x80000000 + s))
             | _ \<Rightarrow> Inl (KeyError ''name''))
        | _ \<Rightarrow> Inl TypeError)\<rparr>"

definition d_header :: yaml where
  "d_header = YDict [(''start'', Scalar (SInt 0)), (''type'', Scalar (SStr ''bin'')),
                     (''name'', Scalar (SStr ''header''))]"

definition d_main :: yaml where
  "d_main = YDict [(''start'', Scalar (SInt 0x1000)), (''type'', Scalar (SStr ''code'')),
                   (''name'', Scalar (SStr ''main''))]"

definition d_end :: yaml where
  "d_end = YList [Scalar (SInt 0x2000)]"

definition seg_a :: segment where
  "seg_a = mk_segment ''code'' ''boot'' 0x1000 0x1200 0x80000000"

definition seg_b :: segment where
  "seg_b = mk_segment ''code'' ''main'' 0x1200 0x1400 0x80000200"

definition seg_code :: segment where
  "seg_code = mk_segment ''code'' ''boot'' 0x1000 0x1200 0x80000000"

definition seg_bin :: segment where
  "seg_bin = mk_segment ''bin'' ''assets'' 0x1200 0x1400 0x80000200"

definition sym_a :: symbol where
  "sym_a = \<lparr>sym_name = ''func_80000150'', vram_start = 0x80000150, rom = None\<rparr>"

definition sym_b :: symbol where
  "sym_b = \<lparr>sym_name = ''alias_80000150'', vram_start = 0x80000150, rom = None\<rparr>"

definition sym_c :: symbol where
  "sym_c = \<lparr>sym_name = ''D_80000250'', vram_start = 0x80000250, rom = Some 0x1250\<rparr>"

definition doc_main :: "(string \<times> yaml) list" where
  "doc_main = [(''segments'', YList [Scalar (SInt 1), Scalar (SInt 2)]),
               (''options'', YDict [(''x'', Scalar (SInt 1))])]"

definition doc_additional :: "(string \<times> yaml) list" where
  "doc_additional = [(''segments'', YList [Scalar (SInt 3)]),
                     (''options'', YDict [(''y'', Scalar (SInt 2))])]"

text \<open>A cache written under the options \<open>x: 1\<close> that holds the fingerprint of \<open>seg_code\<close>.\<close>

definition warm_cache :: "string \<rightharpoonup> yaml" where
  "warm_cache = [''__options__'' \<mapsto> YDict [(''x'', Scalar (SInt 1))],
                 unique_id seg_code \<mapsto> seg_cache seg_code]"

text \<open>
  A target of four bytes and a digest function for the examples, which gives every target
  the same forty hexadecimal digits.
\<close>

definition demo_rom :: bytes where
  "demo_rom = [CHR 0x80, CHR 0x37, CHR 0x12, CHR 0x40]"

definition demo_digest :: "bytes \<Rightarrow> string" where
  "demo_digest rom_bytes = ''da39a3ee5e6b4b0d3255bfef95601890afd80709''"

definition demo_config :: "string \<Rightarrow> int \<Rightarrow> (string \<times> yaml) list" where
  "demo_config declared x =
     [(''sha1'', Scalar (SStr declared)),
      (''options'', YDict [(''x'', Scalar (SInt x))]),
      (''segments'', YList [d_header, d_main, d_end])]"

chapter \<open>Properties\<close>

section \<open>Decimal numerals\<close>

lemma digit_val_digit_char: "d < 10 \<Longrightarrow> digit_val (digit_char d) = d"
  unfolding digit_val_def digit_char_def
  by (auto simp: less_Suc_eq numeral_eq_Suc nth_Cons')

lemma read_nat_snoc: "read_nat (s @ [c]) = 10 * read_nat s + digit_val c"
  by (simp add: read_nat_def)

lemma read_nat_str_nat: "read_nat (str_nat n) = n"
proof (induction n rule: str_nat.induct)
  case (1 n)
  show ?case
  proof (cases "n < 10")
    case True
    then show ?thesis
      by (simp add: str_nat.simps [of n] read_nat_def digit_val_digit_char)
  next
    case False
    with "1" have "read_nat (str_nat (n div 10)) = n div 10" by simp
    with False show ?thesis
      by (simp add: str_nat.simps [of n] read_nat_snoc digit_val_digit_char)
  qed
qed

lemma str_nat_digits: "c \<in> set (str_nat n) \<Longrightarrow> c \<in> digit_char ` {..<10}"
proof (induction n rule: str_nat.induct)
  case (1 n)
  show ?case
  proof (cases "n < 10")
    case True
    with "1.prems" show ?thesis
      by (simp add: str_nat.simps [of n])
  next
    case False
    with "1" show ?thesis
      by (auto simp: str_nat.simps [of n])
  qed
qed

lemma str_int_nonneg: "0 \<le> i \<Longrightarrow> str_int i = str_nat (nat i)"
  by (simp add: str_int_def)

section \<open>The byte-count formatter\<close>

text \<open>
  C5, as the source has it. The two thresholds are strict: for a non-negative count
  \<open>fmt_size\<close> writes a count of at most 1000 in bytes, a count above 1000 and at most
  1000000 in whole thousands (\<open>KB\<close>, floor division), and a count above 1000000 in whole
  millions (\<open>MB\<close>, floor division); the number written is the decimal numeral of the
  count or of the quotient. In particular 999 gives \<open>999 B\<close>, 1500 gives \<open>1 KB\<close> and
  2500000 gives \<open>2 MB\<close>.
\<close>

theorem fmt_size_thresholds:
  "0 \<le> n \<Longrightarrow>
     fmt_size n =
       (if n \<le> 1000 then str_nat (nat n) @ '' B''
        else if n \<le> 1000000 then str_nat (nat (n div 1000)) @ '' KB''
        else str_nat (nat (n div 1000000)) @ '' MB'')
     \<and> read_nat (str_nat (nat n)) = nat n
     \<and> fmt_size 999 = ''999 B'' \<and> fmt_size 1500 = ''1 KB'' \<and> fmt_size 2500000 = ''2 MB''"
proof -
  assume n: "0 \<le> n"
  have a: "fmt_size 999 = ''999 B''"
    by (simp add: fmt_size_def str_int_def str_nat.simps digit_char_def)
  have b: "fmt_size 1500 = ''1 KB''"
    by (simp add: fmt_size_def str_int_def str_nat.simps digit_char_def)
  have c: "fmt_size 2500000 = ''2 MB''"
    by (simp add: fmt_size_def str_int_def str_nat.simps digit_char_def)
  have d: "fmt_size n =
       (if n \<le> 1000 then str_nat (nat n) @ '' B''
        else if n \<le> 1000000 then str_nat (nat (n div 1000)) @ '' KB''
        else str_nat (nat (n div 1000000)) @ '' MB'')"
  proof -
    from n have "0 \<le> n div 1000" and "0 \<le> n div 1000000"
      by (simp_all add: pos_imp_zdiv_nonneg_iff)
    with n show ?thesis
      by (simp add: fmt_size_def str_int_nonneg)
  qed
  from a b c d show ?thesis
    by (simp only: read_nat_str_nat simp_thms)
qed

theorem fmt_size_thresholds_witness:
  "(0::int) \<le> 1000000 \<and> fmt_size 1000000 = ''1000 KB''"
  using fmt_size_thresholds [of 1000000]
  by (simp add: str_nat.simps digit_char_def)

text \<open>
  C5 as stated fails at the thresholds themselves: the count 1000 is written \<open>1000 B\<close>, not
  \<open>1 KB\<close>, and the count 1000000 is written \<open>1000 KB\<close>, not \<open>1 MB\<close>.
\<close>

theorem fmt_size_1000_counterexample:
  "fmt_size 1000 = ''1000 B'' \<and> fmt_size 1000 \<noteq> str_int (1000 div 1000) @ '' KB''
   \<and> fmt_size 1000000 = ''1000 KB'' \<and> fmt_size 1000000 \<noteq> str_int (1000000 div 1000000) @ '' MB''"
  by (simp add: fmt_size_def str_int_def str_nat.simps digit_char_def)

section \<open>Merging configuration documents\<close>

lemma map_of_dict_set: "map_of (dict_set k v d) k' = (if k' = k then Some v else map_of d k')"
  by (induction d) auto

lemma scalar_type_not_container [simp]:
  "scalar_type s \<noteq> ListT" "scalar_type s \<noteq> DictT"
  "ListT \<noteq> scalar_type s" "DictT \<noteq> scalar_type s"
  by (cases s; simp)+

lemma py_type_of_eq_scalar: "py_type_of av = scalar_type s \<longleftrightarrow> (\<exists>t. av = Scalar t \<and> scalar_type t = scalar_type s)"
  by (cases av) auto

lemma py_type_of_eq_ListT: "py_type_of av = ListT \<longleftrightarrow> (\<exists>ys. av = YList ys)"
  by (cases av) auto

lemma py_type_of_eq_DictT: "py_type_of av = DictT \<longleftrightarrow> (\<exists>a'. av = YDict a')"
  by (cases av) auto

lemma map_of_Some_in_keys: "map_of a k = Some v \<Longrightarrow> k \<in> fst ` set a"
  by (auto dest: map_of_SomeD intro: rev_image_eqI)

text \<open>
  The loop, one entry at a time.
\<close>

lemma merge_configs_Cons:
  "merge_configs m ((k, av) # rest) =
     (case merge_entry m k av of Inl e \<Rightarrow> Inl e | Inr m' \<Rightarrow> merge_configs m' rest)"
  by (simp add: merge_entry_def merge_configs.simps
           split: option.splits yaml.splits sum.splits)

lemma merge_entry_new:
  "map_of m k = None \<Longrightarrow> merge_entry m k av = Inr (dict_set k av m)"
  by (simp add: merge_entry_def merge_configs.simps)

lemma merge_entry_mismatch:
  "map_of m k = Some mv \<Longrightarrow> py_type_of mv \<noteq> py_type_of av \<Longrightarrow>
   merge_entry m k av = Inl (LogError (''Type for key '' @ k @ '' in configs does not match''))"
  by (simp add: merge_entry_def merge_configs.simps)

lemma merge_entry_list:
  "map_of m k = Some (YList xs) \<Longrightarrow>
   merge_entry m k (YList ys) = Inr (dict_set k (YList (xs @ ys)) m)"
  by (simp add: merge_entry_def merge_configs.simps)

lemma merge_entry_dict:
  "map_of m k = Some (YDict m') \<Longrightarrow>
   merge_entry m k (YDict a') =
     (case merge_configs m' a' of Inl e \<Rightarrow> Inl e | Inr r' \<Rightarrow> Inr (dict_set k (YDict r') m))"
  by (simp add: merge_entry_def merge_configs.simps split: sum.splits)

lemma merge_entry_scalar:
  "map_of m k = Some (Scalar s) \<Longrightarrow> scalar_type s = scalar_type t \<Longrightarrow>
   merge_entry m k (Scalar t) = Inr (dict_set k (Scalar t) m)"
  by (simp add: merge_entry_def merge_configs.simps)

text \<open>
  An iteration touches its own key only, and leaves the merged value under it.
\<close>

lemma merge_entry_other:
  "merge_entry m k av = Inr m' \<Longrightarrow> k' \<noteq> k \<Longrightarrow> map_of m' k' = map_of m k'"
  by (auto simp: merge_entry_def merge_configs.simps map_of_dict_set
           split: option.splits if_splits yaml.splits sum.splits)

lemma merge_configs_other:
  "merge_configs m a = Inr r \<Longrightarrow> k \<notin> fst ` set a \<Longrightarrow> map_of r k = map_of m k"
proof (induction a arbitrary: m)
  case Nil
  then show ?case by (simp add: merge_configs.simps)
next
  case (Cons x a)
  obtain k' av where x: "x = (k', av)" by (cases x)
  from Cons.prems x obtain m' where
    e: "merge_entry m k' av = Inr m'" and r: "merge_configs m' a = Inr r"
    by (auto simp: merge_configs_Cons split: sum.splits)
  from Cons.prems x have "k \<noteq> k'" and "k \<notin> fst ` set a" by auto
  with Cons.IH [OF r] merge_entry_other [OF e] show ?case by simp
qed

lemma merge_entry_value:
  assumes e: "merge_entry m k av = Inr m'"
  shows "merged_value (map_of m k) av (map_of m' k)"
proof (cases "map_of m k")
  case None
  with e show ?thesis
    by (auto simp: merge_entry_new merged_value_def map_of_dict_set)
next
  case (Some mv)
  with e have t: "py_type_of mv = py_type_of av"
    by (cases "py_type_of mv = py_type_of av") (auto simp: merge_entry_mismatch)
  show ?thesis
  proof (cases mv)
    case (Scalar s)
    with t have "py_type_of av = scalar_type s" by simp
    then obtain t' where "av = Scalar t'" "scalar_type s = scalar_type t'"
      by (auto simp: py_type_of_eq_scalar)
    with Some Scalar e show ?thesis
      by (auto simp: merge_entry_scalar merged_value_def map_of_dict_set)
  next
    case (YList xs)
    with t have "py_type_of av = ListT" by simp
    then obtain ys where "av = YList ys" by (auto simp: py_type_of_eq_ListT)
    with Some YList e show ?thesis
      by (auto simp: merge_entry_list merged_value_def map_of_dict_set)
  next
    case (YDict d)
    with t have "py_type_of av = DictT" by simp
    then obtain a' where "av = YDict a'" by (auto simp: py_type_of_eq_DictT)
    with Some YDict e show ?thesis
      by (auto simp: merge_entry_dict merged_value_def map_of_dict_set split: sum.splits)
  qed
qed

lemma merge_configs_value:
  "merge_configs m a = Inr r \<Longrightarrow> distinct (map fst a) \<Longrightarrow> map_of a k = Some av \<Longrightarrow>
   merged_value (map_of m k) av (map_of r k)"
proof (induction a arbitrary: m)
  case Nil
  then show ?case by simp
next
  case (Cons x a)
  obtain k' av' where x: "x = (k', av')" by (cases x)
  from Cons.prems x obtain m' where
    e: "merge_entry m k' av' = Inr m'" and r: "merge_configs m' a = Inr r"
    by (auto simp: merge_configs_Cons split: sum.splits)
  show ?case
  proof (cases "k = k'")
    case True
    with Cons.prems x have av: "av' = av" and notin: "k \<notin> fst ` set a" by auto
    from merge_configs_other [OF r notin] have "map_of r k = map_of m' k" .
    with merge_entry_value [OF e] True av show ?thesis by simp
  next
    case False
    with Cons.prems x have "distinct (map fst a)" and "map_of a k = Some av" by auto
    from Cons.IH [OF r this] merge_entry_other [OF e False] show ?thesis by simp
  qed
qed

lemma merge_configs_mismatch:
  "distinct (map fst a) \<Longrightarrow> map_of a k = Some av \<Longrightarrow> map_of m k = Some mv \<Longrightarrow>
   py_type_of mv \<noteq> py_type_of av \<Longrightarrow> \<exists>e. merge_configs m a = Inl e"
proof (rule ccontr)
  assume d: "distinct (map fst a)" and a: "map_of a k = Some av" and m: "map_of m k = Some mv"
    and t: "py_type_of mv \<noteq> py_type_of av" and n: "\<nexists>e. merge_configs m a = Inl e"
  from n obtain r where r: "merge_configs m a = Inr r" by (cases "merge_configs m a") auto
  from merge_configs_value [OF r d a] m t show False
    by (auto simp: merged_value_def split: yaml.splits)
qed

text \<open>
  When the merge succeeds.
\<close>

lemma merge_entry_succeeds:
  assumes "\<And>mv. map_of m k = Some mv \<Longrightarrow> py_type_of mv = py_type_of av"
    and "\<And>m' a'. map_of m k = Some (YDict m') \<Longrightarrow> av = YDict a' \<Longrightarrow> \<exists>r'. merge_configs m' a' = Inr r'"
  shows "\<exists>m'. merge_entry m k av = Inr m'"
proof (cases "map_of m k")
  case None
  then show ?thesis by (simp add: merge_entry_new)
next
  case (Some mv)
  with assms(1) have t: "py_type_of mv = py_type_of av" by simp
  show ?thesis
  proof (cases mv)
    case (Scalar s)
    with t have "py_type_of av = scalar_type s" by simp
    then obtain t' where "av = Scalar t'" "scalar_type s = scalar_type t'"
      by (auto simp: py_type_of_eq_scalar)
    with Some Scalar show ?thesis by (simp add: merge_entry_scalar)
  next
    case (YList xs)
    with t have "py_type_of av = ListT" by simp
    then obtain ys where "av = YList ys" by (auto simp: py_type_of_eq_ListT)
    with Some YList show ?thesis by (simp add: merge_entry_list)
  next
    case (YDict m')
    with t have "py_type_of av = DictT" by simp
    then obtain a' where av: "av = YDict a'" by (auto simp: py_type_of_eq_DictT)
    from assms(2) Some YDict av obtain r' where "merge_configs m' a' = Inr r'" by blast
    with Some YDict av show ?thesis by (simp add: merge_entry_dict)
  qed
qed

lemma merge_configs_succeeds:
  assumes "distinct (map fst a)"
    and "\<And>k mv av. map_of m k = Some mv \<Longrightarrow> map_of a k = Some av \<Longrightarrow> py_type_of mv = py_type_of av"
    and "\<And>k m' a'. map_of m k = Some (YDict m') \<Longrightarrow> map_of a k = Some (YDict a') \<Longrightarrow>
           \<exists>r'. merge_configs m' a' = Inr r'"
  shows "\<exists>r. merge_configs m a = Inr r"
  using assms
proof (induction a arbitrary: m)
  case Nil
  then show ?case by (simp add: merge_configs.simps)
next
  case (Cons x a)
  obtain k av where x: "x = (k, av)" by (cases x)
  from Cons.prems x have d: "distinct (map fst a)" and notin: "k \<notin> fst ` set a" by auto
  have "\<exists>m'. merge_entry m k av = Inr m'"
  proof (rule merge_entry_succeeds)
    fix mv assume "map_of m k = Some mv"
    with Cons.prems(2) [of k mv av] x show "py_type_of mv = py_type_of av" by simp
  next
    fix m' a' assume "map_of m k = Some (YDict m')" "av = YDict a'"
    with Cons.prems(3) [of k m' a'] x show "\<exists>r'. merge_configs m' a' = Inr r'" by simp
  qed
  then obtain m1 where e: "merge_entry m k av = Inr m1" by blast
  have other: "map_of m1 k' = map_of m k'" if "map_of a k' \<noteq> None" for k'
  proof -
    from that notin have "k' \<noteq> k" by (auto dest: map_of_Some_in_keys)
    with merge_entry_other [OF e] show ?thesis by simp
  qed
  have "\<exists>r. merge_configs m1 a = Inr r"
  proof (rule Cons.IH [OF d])
    fix k' mv av' assume a: "map_of m1 k' = Some mv" "map_of a k' = Some av'"
    with other [of k'] have "map_of m k' = Some mv" by simp
    moreover from a notin x have "map_of (x # a) k' = Some av'"
      by (auto dest: map_of_Some_in_keys)
    ultimately show "py_type_of mv = py_type_of av'" using Cons.prems(2) by blast
  next
    fix k' m' a' assume a: "map_of m1 k' = Some (YDict m')" "map_of a k' = Some (YDict a')"
    with other [of k'] have "map_of m k' = Some (YDict m')" by simp
    moreover from a notin x have "map_of (x # a) k' = Some (YDict a')"
      by (auto dest: map_of_Some_in_keys)
    ultimately show "\<exists>r'. merge_configs m' a' = Inr r'" using Cons.prems(3) by blast
  qed
  with e x show ?case by (simp add: merge_configs_Cons)
qed

text \<open>
  C6, as the source has it. For two documents \<open>m\<close> and \<open>a\<close> (the keys of a dict are
  distinct), whenever the merge returns a document \<open>r\<close>: a key of one document only keeps
  that document's value; a key that is a list in both has the list of \<open>m\<close> followed by the
  list of \<open>a\<close>; a key that is a mapping in both has the merge of the two mappings, which
  has succeeded; a key that is a scalar in both has two scalars of the same type and takes
  the value of \<open>a\<close>. Whenever the two values of a key present in both have different types
  (a list against a mapping, a scalar against a container, two scalars of different
  types) the merge fails. And the merge succeeds whenever the values of every common key
  have the same type and the merge of every pair of common mappings succeeds.
\<close>

theorem merge_configs_by_key:
  assumes "distinct (map fst a)"
  shows "(\<forall>r. merge_configs m a = Inr r \<longrightarrow> (\<forall>k.
            (map_of a k = None \<longrightarrow> map_of r k = map_of m k)
          \<and> (map_of m k = None \<longrightarrow> map_of r k = map_of a k)
          \<and> (\<forall>xs ys. map_of m k = Some (YList xs) \<and> map_of a k = Some (YList ys) \<longrightarrow>
                map_of r k = Some (YList (xs @ ys)))
          \<and> (\<forall>m' a'. map_of m k = Some (YDict m') \<and> map_of a k = Some (YDict a') \<longrightarrow>
                (\<exists>r'. merge_configs m' a' = Inr r' \<and> map_of r k = Some (YDict r')))
          \<and> (\<forall>s t. map_of m k = Some (Scalar s) \<and> map_of a k = Some (Scalar t) \<longrightarrow>
                scalar_type s = scalar_type t \<and> map_of r k = Some (Scalar t))))
       \<and> (\<forall>k mv av. map_of m k = Some mv \<and> map_of a k = Some av \<and> py_type_of mv \<noteq> py_type_of av \<longrightarrow>
            (\<exists>e. merge_configs m a = Inl e))
       \<and> ((\<forall>k mv av. map_of m k = Some mv \<and> map_of a k = Some av \<longrightarrow>
               py_type_of mv = py_type_of av
             \<and> (\<forall>m' a'. mv = YDict m' \<and> av = YDict a' \<longrightarrow> (\<exists>r'. merge_configs m' a' = Inr r')))
            \<longrightarrow> (\<exists>r. merge_configs m a = Inr r))"
proof (intro conjI allI impI)
  fix r k
  assume r: "merge_configs m a = Inr r"
  {
    assume "map_of a k = None"
    then have "k \<notin> fst ` set a" by (simp add: map_of_eq_None_iff)
    with r show "map_of r k = map_of m k" by (rule merge_configs_other)
  }
  {
    assume n: "map_of m k = None"
    show "map_of r k = map_of a k"
    proof (cases "map_of a k")
      case None
      then have "k \<notin> fst ` set a" by (simp add: map_of_eq_None_iff)
      with r have "map_of r k = map_of m k" by (rule merge_configs_other)
      with n None show ?thesis by simp
    next
      case (Some av)
      from merge_configs_value [OF r assms Some] n Some show ?thesis
        by (simp add: merged_value_def)
    qed
  }
  {
    fix xs ys
    assume "map_of m k = Some (YList xs) \<and> map_of a k = Some (YList ys)"
    then have m: "map_of m k = Some (YList xs)" and a: "map_of a k = Some (YList ys)" by simp_all
    from merge_configs_value [OF r assms a] m show "map_of r k = Some (YList (xs @ ys))"
      by (simp add: merged_value_def)
  }
  {
    fix m' a'
    assume "map_of m k = Some (YDict m') \<and> map_of a k = Some (YDict a')"
    then have m: "map_of m k = Some (YDict m')" and a: "map_of a k = Some (YDict a')" by simp_all
    from merge_configs_value [OF r assms a] m
    show "\<exists>r'. merge_configs m' a' = Inr r' \<and> map_of r k = Some (YDict r')"
      by (simp add: merged_value_def)
  }
  {
    fix s t
    assume "map_of m k = Some (Scalar s) \<and> map_of a k = Some (Scalar t)"
    then have m: "map_of m k = Some (Scalar s)" and a: "map_of a k = Some (Scalar t)" by simp_all
    from merge_configs_value [OF r assms a] m
    show "scalar_type s = scalar_type t" and "map_of r k = Some (Scalar t)"
      by (simp_all add: merged_value_def)
  }
next
  fix k mv av
  assume "map_of m k = Some mv \<and> map_of a k = Some av \<and> py_type_of mv \<noteq> py_type_of av"
  then show "\<exists>e. merge_configs m a = Inl e"
    using merge_configs_mismatch [OF assms] by blast
next
  assume h: "\<forall>k mv av. map_of m k = Some mv \<and> map_of a k = Some av \<longrightarrow>
               py_type_of mv = py_type_of av
             \<and> (\<forall>m' a'. mv = YDict m' \<and> av = YDict a' \<longrightarrow> (\<exists>r'. merge_configs m' a' = Inr r'))"
  show "\<exists>r. merge_configs m a = Inr r"
  proof (rule merge_configs_succeeds [OF assms])
    fix k mv av assume "map_of m k = Some mv" "map_of a k = Some av"
    with h show "py_type_of mv = py_type_of av" by blast
  next
    fix k m' a' assume "map_of m k = Some (YDict m')" "map_of a k = Some (YDict a')"
    with h show "\<exists>r'. merge_configs m' a' = Inr r'" by blast
  qed
qed

theorem merge_configs_by_key_witness:
  "distinct (map fst doc_additional)
   \<and> merge_configs doc_main doc_additional =
       Inr [(''segments'', YList [Scalar (SInt 1), Scalar (SInt 2), Scalar (SInt 3)]),
            (''options'', YDict [(''x'', Scalar (SInt 1)), (''y'', Scalar (SInt 2))])]
   \<and> map_of doc_main ''segments'' = Some (YList [Scalar (SInt 1), Scalar (SInt 2)])
   \<and> map_of doc_additional ''segments'' = Some (YList [Scalar (SInt 3)])
   \<and> merge_configs [(''k'', YList [])] [(''k'', YDict [])] =
       Inl (LogError ''Type for key k in configs does not match'')"
proof -
  have d: "distinct (map fst doc_additional)" by (simp add: doc_additional_def)
  from merge_configs_by_key [OF d, of doc_main] d show ?thesis
    by (simp add: doc_main_def doc_additional_def merge_configs.simps)
qed

text \<open>
  C6 as stated fails for two scalars of different types under one key: the integer 1 in
  the first document and the string \<open>a\<close> in the second do not merge to the later value, the
  merge ends with the type error of \<open>log.error\<close>.
\<close>

theorem merge_configs_scalar_counterexample:
  "merge_configs [(''x'', Scalar (SInt 1))] [(''x'', Scalar (SStr ''a''))] =
     Inl (LogError ''Type for key x in configs does not match'')
   \<and> merge_configs [(''x'', Scalar (SInt 1))] [(''x'', Scalar (SStr ''a''))] \<noteq>
     Inr [(''x'', Scalar (SStr ''a''))]"
  by (simp add: merge_configs.simps)

section \<open>The partition of the symbols\<close>

lemma entries_dict_append:
  "entries (dict_append k v d) k' = (if k' = k then entries d k @ [v] else entries d k')"
  by (induction d) (auto simp: entries_def)

lemma keys_dict_append:
  "map fst (dict_append k v d) = (if k \<in> fst ` set d then map fst d else map fst d @ [k])"
  by (induction d) force+

lemma distinct_dict_append: "distinct (map fst d) \<Longrightarrow> distinct (map fst (dict_append k v d))"
  by (simp add: keys_dict_append)

lemma total_symbols_dict_append: "total_symbols (dict_append k v d) = Suc (total_symbols d)"
  by (induction d) (auto simp: total_symbols_def)

lemma nonempty_dict_append:
  "list_all (\<lambda>(k, l). l \<noteq> []) d \<Longrightarrow> list_all (\<lambda>(k, l). l \<noteq> []) (dict_append k v d)"
  by (induction d) auto

lemma symbols_loop_step:
  "symbols_loop segment all_segments (symbol # rest) (a, b) =
     symbols_loop segment all_segments rest
       (if owned_by segment all_segments symbol
        then (dict_append (vram_start symbol) symbol a, b)
        else (a, dict_append (vram_start symbol) symbol b))"
  by (simp add: owned_by_def)

lemma symbols_loop_inv:
  assumes "symbols_loop segment all_segments syms (a, b) = (a', b')"
  shows "(\<forall>k. entries a' k = entries a k @ filter (\<lambda>s. vram_start s = k \<and> owned_by segment all_segments s) syms)
       \<and> (\<forall>k. entries b' k = entries b k @ filter (\<lambda>s. vram_start s = k \<and> \<not> owned_by segment all_segments s) syms)
       \<and> total_symbols a' + total_symbols b' = total_symbols a + total_symbols b + length syms
       \<and> (distinct (map fst a) \<longrightarrow> distinct (map fst a'))
       \<and> (distinct (map fst b) \<longrightarrow> distinct (map fst b'))
       \<and> (list_all (\<lambda>(k, l). l \<noteq> []) a \<longrightarrow> list_all (\<lambda>(k, l). l \<noteq> []) a')
       \<and> (list_all (\<lambda>(k, l). l \<noteq> []) b \<longrightarrow> list_all (\<lambda>(k, l). l \<noteq> []) b')"
  using assms
proof (induction syms arbitrary: a b)
  case Nil
  then show ?case by simp
next
  case (Cons s syms)
  show ?case
  proof (cases "owned_by segment all_segments s")
    case True
    with Cons.prems have "symbols_loop segment all_segments syms (dict_append (vram_start s) s a, b) = (a', b')"
      by (simp only: symbols_loop_step if_True)
    from Cons.IH [OF this] True show ?thesis
      by (simp add: entries_dict_append total_symbols_dict_append distinct_dict_append nonempty_dict_append)
  next
    case False
    with Cons.prems have "symbols_loop segment all_segments syms (a, dict_append (vram_start s) s b) = (a', b')"
      by (simp only: symbols_loop_step if_False)
    from Cons.IH [OF this] False show ?thesis
      by (simp add: entries_dict_append total_symbols_dict_append distinct_dict_append nonempty_dict_append)
  qed
qed

lemma entries_of_member:
  "distinct (map fst d) \<Longrightarrow> (k, l) \<in> set d \<Longrightarrow> entries d k = l"
  by (simp add: entries_def)

lemma get_segment_symbols_entries:
  assumes "get_segment_symbols all_symbols segment all_segments = (seg_syms, other_syms)"
  shows "entries seg_syms k = filter (\<lambda>s. vram_start s = k \<and> owned_by segment all_segments s) all_symbols"
    and "entries other_syms k = filter (\<lambda>s. vram_start s = k \<and> \<not> owned_by segment all_segments s) all_symbols"
    and "total_symbols seg_syms + total_symbols other_syms = length all_symbols"
    and "distinct (map fst seg_syms)" and "distinct (map fst other_syms)"
    and "list_all (\<lambda>(k, l). l \<noteq> []) seg_syms" and "list_all (\<lambda>(k, l). l \<noteq> []) other_syms"
  using symbols_loop_inv [OF assms [unfolded get_segment_symbols_def]]
  by (simp_all add: entries_def total_symbols_def)

lemmas demo_defs = sym_a_def sym_b_def sym_c_def seg_a_def seg_b_def mk_segment_def
  get_segment_symbols_def contains_vram_def contains_rom_def is_symbol_isolated_def truthy_def

lemma demo_partition:
  "get_segment_symbols [sym_a, sym_c, sym_b] seg_a [seg_a, seg_b] =
     ([(0x80000150, [sym_a, sym_b])], [(0x80000250, [sym_c])])"
  by (simp add: demo_defs)

text \<open>
  C10. For every segment and every symbol table, the two mappings that
  \<open>get_segment_symbols\<close> returns are dicts with distinct keys and no empty list; under every
  key the first holds, in the order of the table, the symbols of the table with that
  \<open>vram_start\<close> that the loop gives to the segment, and the second those it does not: a
  list is appended to, never replaced, and aliases of one address are all kept. So every
  symbol of the table is under its own \<open>vram_start\<close> in exactly one of the two mappings,
  every symbol in a mapping is a symbol of the table under its own address, and the
  numbers of symbols of the two mappings add up to the length of the table.
\<close>

theorem get_segment_symbols_partition:
  assumes "get_segment_symbols all_symbols segment all_segments = (seg_syms, other_syms)"
  shows "(\<forall>k. entries seg_syms k =
            filter (\<lambda>s. vram_start s = k \<and> owned_by segment all_segments s) all_symbols)
       \<and> (\<forall>k. entries other_syms k =
            filter (\<lambda>s. vram_start s = k \<and> \<not> owned_by segment all_segments s) all_symbols)
       \<and> (\<forall>s \<in> set all_symbols.
            (s \<in> set (entries seg_syms (vram_start s))) \<noteq> (s \<in> set (entries other_syms (vram_start s))))
       \<and> (\<forall>k l. (k, l) \<in> set seg_syms \<union> set other_syms \<longrightarrow>
            l \<noteq> [] \<and> (\<forall>s \<in> set l. vram_start s = k \<and> s \<in> set all_symbols))
       \<and> distinct (map fst seg_syms) \<and> distinct (map fst other_syms)
       \<and> total_symbols seg_syms + total_symbols other_syms = length all_symbols"
proof -
  note e = get_segment_symbols_entries [OF assms]
  have one: "\<forall>s \<in> set all_symbols.
      (s \<in> set (entries seg_syms (vram_start s))) \<noteq> (s \<in> set (entries other_syms (vram_start s)))"
    by (auto simp: e(1,2))
  have keys: "l \<noteq> [] \<and> (\<forall>s \<in> set l. vram_start s = k \<and> s \<in> set all_symbols)"
    if "(k, l) \<in> set seg_syms \<union> set other_syms" for k l
  proof -
    from that consider "(k, l) \<in> set seg_syms" | "(k, l) \<in> set other_syms" by blast
    then show ?thesis
    proof cases
      case 1
      with e(4) have "entries seg_syms k = l" by (simp add: entries_of_member)
      moreover from 1 e(6) have "l \<noteq> []" by (auto simp: list_all_iff)
      ultimately show ?thesis using e(1) [of k] by auto
    next
      case 2
      with e(5) have "entries other_syms k = l" by (simp add: entries_of_member)
      moreover from 2 e(7) have "l \<noteq> []" by (auto simp: list_all_iff)
      ultimately show ?thesis using e(2) [of k] by auto
    qed
  qed
  from e(1,2,3,4,5) one keys show ?thesis by blast
qed

theorem get_segment_symbols_partition_witness:
  "get_segment_symbols [sym_a, sym_c, sym_b] seg_a [seg_a, seg_b] =
     ([(0x80000150, [sym_a, sym_b])], [(0x80000250, [sym_c])])
   \<and> total_symbols [(0x80000150 :: int, [sym_a, sym_b])] + total_symbols [(0x80000250 :: int, [sym_c])] = length [sym_a, sym_c, sym_b]
   \<and> entries [(0x80000150 :: int, [sym_a, sym_b])] 0x80000150 = [sym_a, sym_b]"
  using get_segment_symbols_partition [OF demo_partition] demo_partition
  by (simp add: total_symbols_def entries_def)

section \<open>Isolated symbols\<close>

lemma filter_exactly_one:
  assumes "i < length xs" and "P (xs ! i)"
    and "\<forall>j < length xs. j \<noteq> i \<longrightarrow> \<not> P (xs ! j)"
  shows "length (filter P xs) = 1"
proof -
  have "\<not> P x" if "x \<in> set (take i xs)" for x
  proof -
    from that obtain j where "j < i" "j < length xs" "x = xs ! j"
      by (auto simp: in_set_conv_nth)
    with assms(3) show ?thesis by auto
  qed
  then have a: "filter P (take i xs) = []" by (simp add: filter_empty_conv)
  have "\<not> P x" if "x \<in> set (drop (Suc i) xs)" for x
  proof -
    from that obtain j where "j < length xs - Suc i" "x = xs ! (Suc i + j)"
      by (auto simp: in_set_conv_nth)
    then have "Suc i + j < length xs" "Suc i + j \<noteq> i" by simp_all
    with assms(3) \<open>x = xs ! (Suc i + j)\<close> show ?thesis by blast
  qed
  then have b: "filter P (drop (Suc i) xs) = []" by (simp add: filter_empty_conv)
  from assms(1) have "xs = take i xs @ xs ! i # drop (Suc i) xs" by (rule id_take_nth_drop)
  then have "filter P xs = filter P (take i xs @ xs ! i # drop (Suc i) xs)" by simp
  with a b assms(2) show ?thesis by simp
qed

text \<open>
  C1, as the source has it. A symbol of the table whose vram address is contained by
  exactly one segment of the list, the one at index \<open>i\<close>, and that has no ROM address, is
  in the owned mapping of that segment under its address and in no list of that
  segment's external mapping; for every other segment of the list it is in the external
  mapping under its address and in no list of the owned mapping.
\<close>

theorem isolated_symbol_attribution:
  assumes "i < length all_segments"
    and "contains_vram (all_segments ! i) (vram_start s)"
    and "\<forall>j < length all_segments. j \<noteq> i \<longrightarrow> \<not> contains_vram (all_segments ! j) (vram_start s)"
    and "rom s = None"
    and "s \<in> set all_symbols"
  shows "s \<in> set (entries (fst (get_segment_symbols all_symbols (all_segments ! i) all_segments)) (vram_start s))
       \<and> (\<forall>k. s \<notin> set (entries (snd (get_segment_symbols all_symbols (all_segments ! i) all_segments)) k))
       \<and> (\<forall>j < length all_segments. j \<noteq> i \<longrightarrow>
            s \<in> set (entries (snd (get_segment_symbols all_symbols (all_segments ! j) all_segments)) (vram_start s))
          \<and> (\<forall>k. s \<notin> set (entries (fst (get_segment_symbols all_symbols (all_segments ! j) all_segments)) k)))"
proof -
  from assms(1-3) have iso: "is_symbol_isolated s all_segments"
    unfolding is_symbol_isolated_def by (rule filter_exactly_one)
  from assms(4) have nr: "\<not> truthy (rom s)" by (simp add: truthy_def)
  have own: "owned_by (all_segments ! j) all_segments s \<longleftrightarrow> j = i" if "j < length all_segments" for j
    using iso nr assms(2,3) that by (auto simp: owned_by_def)
  have ent: "entries (fst (get_segment_symbols all_symbols seg all_segments)) k =
               filter (\<lambda>s. vram_start s = k \<and> owned_by seg all_segments s) all_symbols"
            "entries (snd (get_segment_symbols all_symbols seg all_segments)) k =
               filter (\<lambda>s. vram_start s = k \<and> \<not> owned_by seg all_segments s) all_symbols"
    for seg k
    using get_segment_symbols_entries(1,2) [of all_symbols seg all_segments
            "fst (get_segment_symbols all_symbols seg all_segments)"
            "snd (get_segment_symbols all_symbols seg all_segments)" k]
    by simp_all
  from own assms(1,5) show ?thesis by (auto simp: ent)
qed

theorem isolated_symbol_attribution_witness:
  "sym_a \<in> set (entries (fst (get_segment_symbols [sym_a, sym_c] ([seg_a, seg_b] ! 0) [seg_a, seg_b])) (vram_start sym_a))
   \<and> sym_a \<in> set (entries (snd (get_segment_symbols [sym_a, sym_c] ([seg_a, seg_b] ! 1) [seg_a, seg_b])) (vram_start sym_a))
   \<and> contains_vram seg_a (vram_start sym_a) \<and> \<not> contains_vram seg_b (vram_start sym_a) \<and> rom sym_a = None"
proof -
  have a: "(0::nat) < length [seg_a, seg_b]" by simp
  have b: "contains_vram ([seg_a, seg_b] ! 0) (vram_start sym_a)" by (simp add: demo_defs)
  have c: "\<forall>j < length [seg_a, seg_b]. j \<noteq> 0 \<longrightarrow> \<not> contains_vram ([seg_a, seg_b] ! j) (vram_start sym_a)"
    by (simp add: demo_defs less_Suc_eq)
  have d: "rom sym_a = None" by (simp add: sym_a_def)
  have e: "sym_a \<in> set [sym_a, sym_c]" by simp
  from isolated_symbol_attribution [OF a b c d e] b c d show ?thesis
    by (simp add: less_Suc_eq)
qed

text \<open>
  C1 as stated fails in its last part: the isolated symbol does appear in the external
  set of another segment. \<open>sym_a\<close> is contained by \<open>seg_a\<close> only and has no ROM address;
  the partition computed for \<open>seg_b\<close> has it in the external mapping, under its address.
\<close>

theorem isolated_symbol_external_counterexample:
  "contains_vram seg_a (vram_start sym_a) \<and> \<not> contains_vram seg_b (vram_start sym_a)
   \<and> is_symbol_isolated sym_a [seg_a, seg_b] \<and> rom sym_a = None
   \<and> get_segment_symbols [sym_a] seg_b [seg_a, seg_b] = ([], [(vram_start sym_a, [sym_a])])
   \<and> sym_a \<in> set (entries (snd (get_segment_symbols [sym_a] seg_b [seg_a, seg_b])) (vram_start sym_a))"
  by (simp add: demo_defs entries_def)

section \<open>Initializing the segments\<close>

lemma err_bind_Inr [simp]: "err_bind (Inr x) f = f x"
  by (simp add: err_bind_def)

lemma err_bind_Inl [simp]: "err_bind (Inl e) f = Inl e"
  by (simp add: err_bind_def)

lemma err_bind_eq_Inr: "err_bind m f = Inr r \<longleftrightarrow> (\<exists>x. m = Inr x \<and> f x = Inr r)"
  by (cases m) auto

lemma from_yaml_range:
  "from_yaml ops c y s e = Inr seg \<Longrightarrow> rom_start seg = s \<and> rom_end seg = Some e"
  by (auto simp: from_yaml_def err_bind_eq_Inr)

text \<open>
  What an iteration on a real descriptor needs to get past, and where it goes on.
\<close>

lemma init_loop_real_Inr:
  assumes "\<not> is_marker y" and "init_loop ops seen ret (y # rest) = Inr r"
  obtains t c s n rest' e seg where
    "parse_segment_type ops y = Inr t" "get_class_for_type ops t = Inr c"
    "parse_segment_start ops y = Inr s" "rest = n # rest'"
    "parse_segment_start ops n = Inr e" "from_yaml ops c y s e = Inr seg"
    "\<not> (require_unique_name seg \<and> name seg \<in> seen)"
    "init_loop ops (if require_unique_name seg then insert (name seg) seen else seen) (ret @ [seg]) rest = Inr r"
proof -
  from assms obtain t c s nxt e seg where
    a: "parse_segment_type ops y = Inr t" "get_class_for_type ops t = Inr c"
       "parse_segment_start ops y = Inr s"
       "(case rest of [] \<Rightarrow> Inl IndexError | nxt # _ \<Rightarrow> Inr nxt) = Inr nxt"
       "parse_segment_start ops nxt = Inr e" "from_yaml ops c y s e = Inr seg"
    and b: "(if require_unique_name seg then
            if name seg \<in> seen
            then Inl (LogError (''segment name '' @ [CHR 0x27] @ name seg @ [CHR 0x27] @ '' is not unique''))
            else init_loop ops (insert (name seg) seen) (ret @ [seg]) rest
          else init_loop ops seen (ret @ [seg]) rest) = Inr r"
    by (auto simp: err_bind_eq_Inr)
  from a(4) obtain rest' where "rest = nxt # rest'" by (cases rest) auto
  moreover from b have "\<not> (require_unique_name seg \<and> name seg \<in> seen)"
    by (auto split: if_splits)
  moreover from b have "init_loop ops (if require_unique_name seg then insert (name seg) seen else seen) (ret @ [seg]) rest = Inr r"
    by (auto split: if_splits)
  ultimately show ?thesis using a that by blast
qed

lemma init_loop_completes_marker:
  "init_loop ops seen ret cfg = Inr r \<Longrightarrow> cfg \<noteq> [] \<Longrightarrow> is_marker (last cfg)"
proof (induction cfg arbitrary: seen ret)
  case Nil
  then show ?case by simp
next
  case (Cons y rest)
  show ?case
  proof (cases "is_marker y")
    case True
    with Cons.prems have "init_loop ops seen ret rest = Inr r" by simp
    with Cons.IH True show ?thesis by (cases "rest = []") auto
  next
    case False
    from False Cons.prems(1) show ?thesis
    proof (rule init_loop_real_Inr)
      fix n rest' seg
      assume "rest = n # rest'"
        and "init_loop ops (if require_unique_name seg then insert (name seg) seen else seen) (ret @ [seg]) rest = Inr r"
      with Cons.IH show ?thesis by auto
    qed
  qed
qed


lemma real_pairs_Cons:
  "real_pairs (y # n # rest) = (if is_marker y then [] else [(y, n)]) @ real_pairs (n # rest)"
  by (simp add: real_pairs_def)

lemma init_loop_ranges:
  "init_loop ops seen ret cfg = Inr segs \<Longrightarrow>
   \<exists>new. segs = ret @ new \<and> list_all2 (resolved ops) new (real_pairs cfg)"
proof (induction cfg arbitrary: seen ret)
  case Nil
  then show ?case by (simp add: real_pairs_def)
next
  case (Cons y rest)
  show ?case
  proof (cases "is_marker y")
    case True
    with Cons.prems have "init_loop ops seen ret rest = Inr segs" by simp
    from Cons.IH [OF this] True show ?thesis
      by (cases rest) (auto simp: real_pairs_Cons, simp add: real_pairs_def)
  next
    case False
    from False Cons.prems show ?thesis
    proof (rule init_loop_real_Inr)
      fix t c s n rest' e seg
      assume a: "parse_segment_start ops y = Inr s" "rest = n # rest'"
        "parse_segment_start ops n = Inr e" "from_yaml ops c y s e = Inr seg"
        "init_loop ops (if require_unique_name seg then insert (name seg) seen else seen) (ret @ [seg]) rest = Inr segs"
      from Cons.IH [OF a(5)] obtain new where
        new: "segs = (ret @ [seg]) @ new" "list_all2 (resolved ops) new (real_pairs rest)" by blast
      from from_yaml_range [OF a(4)] a(1,3) have "resolved ops seg (y, n)"
        by (simp add: resolved_def)
      with new False a(2) have "segs = ret @ (seg # new)"
        "list_all2 (resolved ops) (seg # new) (real_pairs (y # rest))"
        by (simp_all add: real_pairs_Cons)
      then show ?thesis by blast
    qed
  qed
qed

lemmas init_defs = initialize_segments_def basic_ops_def d_header_def d_main_def d_end_def
  from_yaml_def mk_segment_def

lemma demo_initialize:
  "initialize_segments basic_ops [d_header, d_main, d_end] =
     Inr [mk_segment ''bin'' ''header'' 0 0x1000 0x80000000,
          mk_segment ''code'' ''main'' 0x1000 0x2000 0x80001000]"
  by (simp add: init_defs)



text \<open>
  C2, as the source has it. Whenever \<open>initialize_segments\<close> returns a segment list, the
  segments are, in order, the real descriptors of the sequence, each with the start its
  descriptor declares and, as its end, the start that the entry immediately after it
  declares, marker or real descriptor alike; no segment has an unresolved end, and the
  last entry of a non-empty sequence is a marker. In particular, for three entries of
  which the second declares the start \<open>0x1000\<close> and the third, the marker, the address
  \<open>0x2000\<close>, the second segment has the range from \<open>0x1000\<close> to \<open>0x2000\<close>.
\<close>

theorem initialize_segments_ranges:
  assumes "initialize_segments ops config_segments = Inr segs"
  shows "list_all2 (resolved ops) segs (real_pairs config_segments)
       \<and> (\<forall>seg \<in> set segs. rom_end seg \<noteq> None)
       \<and> (config_segments \<noteq> [] \<longrightarrow> is_marker (last config_segments))
       \<and> (\<forall>d0 d1 m. config_segments = [d0, d1, m] \<and> \<not> is_marker d0 \<and> \<not> is_marker d1
             \<and> parse_segment_start ops d1 = Inr 0x1000 \<and> parse_segment_start ops m = Inr 0x2000
           \<longrightarrow> length segs = 2 \<and> rom_start (segs ! 1) = 0x1000 \<and> rom_end (segs ! 1) = Some 0x2000)"
proof -
  from assms init_loop_ranges [of ops "{}" "[]" config_segments segs]
  have r: "list_all2 (resolved ops) segs (real_pairs config_segments)"
    by (simp add: initialize_segments_def)
  have e: "\<forall>seg \<in> set segs. rom_end seg \<noteq> None"
  proof
    fix seg assume "seg \<in> set segs"
    with r have "\<exists>p. resolved ops seg p"
      by (induction rule: list_all2_induct) auto
    then show "rom_end seg \<noteq> None" by (auto simp: resolved_def)
  qed
  have l: "config_segments \<noteq> [] \<longrightarrow> is_marker (last config_segments)"
    using assms init_loop_completes_marker [of ops "{}" "[]" config_segments segs]
    by (simp add: initialize_segments_def)
  have x: "length segs = 2 \<and> rom_start (segs ! 1) = 0x1000 \<and> rom_end (segs ! 1) = Some 0x2000"
    if "config_segments = [d0, d1, m] \<and> \<not> is_marker d0 \<and> \<not> is_marker d1
        \<and> parse_segment_start ops d1 = Inr 0x1000 \<and> parse_segment_start ops m = Inr 0x2000"
    for d0 d1 m
  proof -
    from that have "real_pairs config_segments = [(d0, d1), (d1, m)]"
      by (simp add: real_pairs_def)
    with r obtain s0 s1 where "segs = [s0, s1]" "resolved ops s1 (d1, m)"
      by (auto simp: list_all2_Cons2)
    with that show ?thesis by (auto simp: resolved_def)
  qed
  from r e l x show ?thesis by blast
qed

theorem initialize_segments_ranges_witness:
  "initialize_segments basic_ops [d_header, d_main, d_end] =
     Inr [mk_segment ''bin'' ''header'' 0 0x1000 0x80000000,
          mk_segment ''code'' ''main'' 0x1000 0x2000 0x80001000]
   \<and> \<not> is_marker d_header \<and> \<not> is_marker d_main \<and> is_marker d_end
   \<and> parse_segment_start basic_ops d_main = Inr 0x1000
   \<and> parse_segment_start basic_ops d_end = Inr 0x2000
   \<and> rom_start ([mk_segment ''bin'' ''header'' 0 0x1000 0x80000000,
                  mk_segment ''code'' ''main'' 0x1000 0x2000 0x80001000] ! 1) = 0x1000
   \<and> rom_end ([mk_segment ''bin'' ''header'' 0 0x1000 0x80000000,
                mk_segment ''code'' ''main'' 0x1000 0x2000 0x80001000] ! 1) = Some 0x2000"
proof -
  have m: "\<not> is_marker d_header" "\<not> is_marker d_main" "is_marker d_end"
    by (simp_all add: d_header_def d_main_def d_end_def)
  have p: "parse_segment_start basic_ops d_main = Inr 0x1000"
    "parse_segment_start basic_ops d_end = Inr 0x2000"
    by (simp_all add: basic_ops_def d_main_def d_end_def)
  from initialize_segments_ranges [OF demo_initialize] m p demo_initialize
  show ?thesis by simp
qed

text \<open>
  C2 as stated fails in its open-ended case: a sequence whose last entry is a real
  descriptor does not give a last segment with an unresolved end, it gives no segments at
  all, the index \<open>i + 1\<close> being out of range.
\<close>

theorem initialize_segments_open_end_counterexample:
  "\<not> is_marker d_main \<and> initialize_segments basic_ops [d_main] = Inl IndexError
   \<and> initialize_segments basic_ops [d_header, d_main] = Inl IndexError"
  by (simp add: init_defs)

section \<open>The two loops\<close>

lemma scalar_eq_None: "scalar_eq s SNone \<longleftrightarrow> s = SNone"
proof (cases s)
  case (SFloat f)
  then show ?thesis by (cases f) auto
qed auto

lemma py_eq_None: "py_eq x (Scalar SNone) \<longleftrightarrow> x = Scalar SNone"
  by (cases x) (auto simp: scalar_eq_None)

lemma count_size_frame [simp]:
  "cache (count_size segment st) = cache st"
  "processed_segments (count_size segment st) = processed_segments st"
  "segments_done (count_size segment st) = segments_done st"
  "split_calls (count_size segment st) = split_calls st"
  "last_typ (count_size segment st) = Some (bucket segment)"
  by (simp_all add: count_size_def Let_def split: option.splits)

lemma count_size_counters_ok:
  "counters_ok st \<Longrightarrow> counters_ok (count_size segment st)"
  by (auto simp: counters_ok_def count_size_def Let_def split: option.splits)

lemma count_size_bucket:
  assumes "counters_ok st"
  shows "\<exists>n. seg_split (count_size segment st) (bucket segment) = Some n"
    and "\<exists>n. seg_cached (count_size segment st) (bucket segment) = Some n"
  using assms
  by (auto simp: counters_ok_def count_size_def Let_def split: option.splits)

lemma count_size_no_hits:
  "no_hits_counted st \<Longrightarrow> no_hits_counted (count_size segment st)"
  by (auto simp: no_hits_counted_def count_size_def Let_def split: option.splits)

lemma scan_segment_frame [simp]:
  "unique_id (scan_segment all_symbols all_segments segment) = unique_id segment"
  "seg_cache (scan_segment all_symbols all_segments segment) = seg_cache segment"
  "should_split (scan_segment all_symbols all_segments segment) = should_split segment"
  "seg_type (scan_segment all_symbols all_segments segment) = seg_type segment"
  "did_run (scan_segment all_symbols all_segments segment) = True"
  by (simp_all add: scan_segment_def Let_def split: prod.splits)

text \<open>
  The scan loop where no segment is skipped.
\<close>

lemma scan_loop_miss:
  assumes "counters_ok st" and "\<not> (use_cache \<and> should_scan segment \<and> cache_hit (cache st) segment)"
  shows "scan_loop use_cache all_symbols all_segments (segment # rest) st =
         scan_loop use_cache all_symbols all_segments rest (scan_one all_symbols all_segments segment st)"
proof -
  from count_size_bucket(1) [OF assms(1)] obtain n where
    "seg_split (count_size segment st) (bucket segment) = Some n" by blast
  with assms(2) show ?thesis
    by (cases "should_scan segment") (auto simp: scan_one_def Let_def)
qed

lemma scan_one_frame [simp]:
  "cache (scan_one all_symbols all_segments segment st) = cache st"
  "split_calls (scan_one all_symbols all_segments segment st) = split_calls st"
  "last_typ (scan_one all_symbols all_segments segment st) = Some (bucket segment)"
  "processed_segments (scan_one all_symbols all_segments segment st) =
     processed_segments st @ map (scan_segment all_symbols all_segments) (filter should_scan [segment])"
  "segments_done (scan_one all_symbols all_segments segment st) =
     segments_done st @ [if should_scan segment then scan_segment all_symbols all_segments segment else segment]"
  by (simp_all add: scan_one_def Let_def)

lemma scan_one_counters_ok:
  "counters_ok st \<Longrightarrow> counters_ok (scan_one all_symbols all_segments segment st)"
  using count_size_counters_ok [of st segment]
  by (auto simp: scan_one_def Let_def counters_ok_def)

lemma scan_one_no_hits:
  "no_hits_counted st \<Longrightarrow> no_hits_counted (scan_one all_symbols all_segments segment st)"
  using count_size_no_hits [of st segment]
  by (auto simp: scan_one_def Let_def no_hits_counted_def)

lemma scan_loop_all_miss:
  assumes "counters_ok st"
    and "\<forall>s \<in> set rest. \<not> (use_cache \<and> should_scan s \<and> cache_hit (cache st) s)"
  shows "\<exists>st'. scan_loop use_cache all_symbols all_segments rest st = Inr st'
       \<and> counters_ok st' \<and> (no_hits_counted st \<longrightarrow> no_hits_counted st')
       \<and> cache st' = cache st \<and> split_calls st' = split_calls st
       \<and> processed_segments st' =
           processed_segments st @ map (scan_segment all_symbols all_segments) (filter should_scan rest)
       \<and> segments_done st' =
           segments_done st @ map (\<lambda>s. if should_scan s then scan_segment all_symbols all_segments s else s) rest"
  using assms
proof (induction rest arbitrary: st)
  case Nil
  then show ?case by simp
next
  case (Cons segment rest)
  let ?st1 = "scan_one all_symbols all_segments segment st"
  from Cons.prems have step: "scan_loop use_cache all_symbols all_segments (segment # rest) st =
      scan_loop use_cache all_symbols all_segments rest ?st1"
    by (intro scan_loop_miss) auto
  have ok: "counters_ok ?st1" using Cons.prems(1) by (rule scan_one_counters_ok)
  have miss: "\<forall>s \<in> set rest. \<not> (use_cache \<and> should_scan s \<and> cache_hit (cache ?st1) s)"
    using Cons.prems(2) by simp
  from Cons.IH [OF ok miss] obtain st' where
    r: "scan_loop use_cache all_symbols all_segments rest ?st1 = Inr st'"
    and p: "counters_ok st'" "no_hits_counted ?st1 \<longrightarrow> no_hits_counted st'"
      "cache st' = cache ?st1" "split_calls st' = split_calls ?st1"
      "processed_segments st' =
         processed_segments ?st1 @ map (scan_segment all_symbols all_segments) (filter should_scan rest)"
      "segments_done st' =
         segments_done ?st1 @ map (\<lambda>s. if should_scan s then scan_segment all_symbols all_segments s else s) rest"
    by blast
  from p(2) scan_one_no_hits [of st all_symbols all_segments segment]
  have nh: "no_hits_counted st \<longrightarrow> no_hits_counted st'" by blast
  from step r p(1,3,4,5,6) nh show ?case by simp
qed

text \<open>
  The split loop where no segment hits the cache.
\<close>

lemma do_split_frame [simp]:
  "cache (do_split segment st) = cache st"
  "seg_cached (do_split segment st) = seg_cached st"
  "last_typ (do_split segment st) = last_typ st"
  "processed_segments (do_split segment st) = processed_segments st"
  "split_calls (do_split segment st) = split_calls st @ filter should_split [segment]"
  by (simp_all add: do_split_def)

lemma store_all_Cons [simp]:
  "store_all (s # segs) c = store_all segs (c(unique_id s \<mapsto> seg_cache s))"
  "store_all [] c = c"
  by (simp_all add: store_all_def)

lemma split_loop_all_miss:
  assumes "distinct (map unique_id segs)"
    and "\<forall>s \<in> set segs. \<not> py_eq (seg_cache s) (cache_get (cache st) (unique_id s))"
  shows "\<exists>st'. split_loop True segs st = Inr st'
       \<and> cache st' = store_all segs (cache st)
       \<and> split_calls st' = split_calls st @ filter should_split segs
       \<and> seg_cached st' = seg_cached st
       \<and> processed_segments st' = processed_segments st"
  using assms
proof (induction segs arbitrary: st)
  case Nil
  then show ?case by simp
next
  case (Cons segment rest)
  let ?st1 = "do_split segment (st\<lparr>cache := (cache st)(unique_id segment \<mapsto> seg_cache segment)\<rparr>)"
  from Cons.prems(2) have step: "split_loop True (segment # rest) st = split_loop True rest ?st1"
    by (simp add: Let_def)
  have d: "distinct (map unique_id rest)" using Cons.prems(1) by simp
  have miss: "\<forall>s \<in> set rest. \<not> py_eq (seg_cache s) (cache_get (cache ?st1) (unique_id s))"
  proof
    fix s assume s: "s \<in> set rest"
    then have "unique_id s \<in> set (map unique_id rest)" by simp
    moreover from Cons.prems(1) have "unique_id segment \<notin> set (map unique_id rest)" by simp
    ultimately have "unique_id s \<noteq> unique_id segment" by metis
    then have "cache_get (cache ?st1) (unique_id s) = cache_get (cache st) (unique_id s)"
      by (simp add: cache_get_def)
    with Cons.prems(2) s show "\<not> py_eq (seg_cache s) (cache_get (cache ?st1) (unique_id s))"
      by simp
  qed
  from Cons.IH [OF d miss] obtain st' where
    "split_loop True rest ?st1 = Inr st'"
    "cache st' = store_all rest (cache ?st1)"
    "split_calls st' = split_calls ?st1 @ filter should_split rest"
    "seg_cached st' = seg_cached ?st1"
    "processed_segments st' = processed_segments ?st1"
    by blast
  with step show ?case by simp
qed

lemma store_all_scanned:
  "store_all (map (\<lambda>s. if should_scan s then scan_segment all_symbols all_segments s else s) segs) c =
   store_all segs c"
  by (induction segs arbitrary: c) simp_all

lemma split_ids_scanned:
  "map unique_id (filter should_split
      (map (\<lambda>s. if should_scan s then scan_segment all_symbols all_segments s else s) segs)) =
   map unique_id (filter should_split segs)"
  by (induction segs) simp_all

lemma ids_scanned:
  "map unique_id (map (\<lambda>s. if should_scan s then scan_segment all_symbols all_segments s else s) segs) =
   map unique_id segs"
  by (induction segs) simp_all

lemma init_state_ok:
  "counters_ok (init_state c)" "no_hits_counted (init_state c)" "cache (init_state c) = c"
  "processed_segments (init_state c) = []" "split_calls (init_state c) = []"
  "segments_done (init_state c) = []"
  by (simp_all add: init_state_def counters_ok_def no_hits_counted_def)

lemma fresh_store_miss:
  assumes "unique_id s \<noteq> ''__options__''" and "seg_cache s \<noteq> Scalar SNone"
  shows "\<not> py_eq (seg_cache s) (cache_get [''__options__'' \<mapsto> v] (unique_id s))"
  using assms by (simp add: cache_get_def py_eq_None)

lemmas run_defs = run_passes_def init_state_def count_size_def bucket_def cache_hit_def
  cache_get_def config_get_def seg_code_def seg_bin_def mk_segment_def warm_cache_def
  scan_segment_def get_segment_symbols_def do_split_def invalidate_cache_def Let_def

lemmas main_defs = main_def after_checksum_def check_sha1_def load_cache_def
  initialize_config_segments_def do_statistics_def demo_config_def demo_digest_def demo_rom_def
  lower_def lower_char_def

section \<open>Invalidation of the cache\<close>

text \<open>
  The comparison with the stored options is Python's: an option that changes from the
  integer 1 to the float 1.0 is an equal value, and the cache is kept.
\<close>

lemma options_equal_across_types:
  "invalidate_cache True (PDict [''__options__'' \<mapsto> YDict [(''x'', Scalar (SInt 1))]])
     [(''options'', YDict [(''x'', Scalar (SFloat (Finite 2 (- 1))))])] =
   Inr [''__options__'' \<mapsto> YDict [(''x'', Scalar (SInt 1))]]"
  by (simp add: invalidate_cache_def cache_get_def config_get_def dyadic_eq_def)

text \<open>
  C3, as the source has it. With caching enabled, when the \<open>__options__\<close> entry of the
  stored cache differs, by Python's \<open>!=\<close>, from the options block of the configuration,
  the cache is replaced by the store that holds the options block under \<open>__options__\<close> and
  nothing else, and it is with this store that \<open>main\<close> then initializes the segments and
  runs the two loops. In that store no segment whose id is not the reserved key, and whose
  fingerprint is not \<open>None\<close>, is a cache hit. So for segments with such ids and
  fingerprints, the ids pairwise distinct, the two loops run to their end with every
  segment a miss: the scan loop scans every segment that is to be scanned, the split loop
  splits every segment that is to be split, no cache hit is counted under any type, and
  the cache ends as the fresh store with the fingerprint of every segment written into it.
\<close>

theorem options_change_invalidates_cache:
  assumes "use_cache"
    and "\<not> py_eq (cache_get stored ''__options__'') (config_get config ''options'')"
  shows "invalidate_cache use_cache (PDict stored) config =
           Inr [''__options__'' \<mapsto> config_get config ''options'']
       \<and> (\<forall>s. unique_id s \<noteq> ''__options__'' \<and> seg_cache s \<noteq> Scalar SNone \<longrightarrow>
             \<not> cache_hit [''__options__'' \<mapsto> config_get config ''options''] s)
       \<and> (distinct (map unique_id all_segments)
            \<and> (\<forall>s \<in> set all_segments. unique_id s \<noteq> ''__options__'' \<and> seg_cache s \<noteq> Scalar SNone) \<longrightarrow>
          (\<exists>st. run_passes use_cache all_symbols [''__options__'' \<mapsto> config_get config ''options'']
                   all_segments = Inr st
             \<and> processed_segments st =
                 map (scan_segment all_symbols all_segments) (filter should_scan all_segments)
             \<and> map unique_id (split_calls st) = map unique_id (filter should_split all_segments)
             \<and> no_hits_counted st
             \<and> cache st = store_all all_segments [''__options__'' \<mapsto> config_get config ''options'']))
       \<and> (load_cache use_cache verbose load_result = PDict stored \<longrightarrow>
            after_checksum ops all_symbols load_result config rom_bytes use_cache verbose =
            err_bind (initialize_config_segments ops config) (\<lambda>segs.
            err_bind (run_passes use_cache all_symbols
                        [''__options__'' \<mapsto> config_get config ''options''] segs) (\<lambda>st.
            err_bind (do_statistics rom_bytes) (\<lambda>_. Inr st))))"
proof -
  let ?c = "[''__options__'' \<mapsto> config_get config ''options'']"
  let ?f = "\<lambda>s. if should_scan s then scan_segment all_symbols all_segments s else s"
  from assms have inv: "invalidate_cache use_cache (PDict stored) config = Inr ?c"
    by (simp add: invalidate_cache_def)
  have miss: "\<not> cache_hit ?c s" if "unique_id s \<noteq> ''__options__'' \<and> seg_cache s \<noteq> Scalar SNone" for s
    using that fresh_store_miss [of s] by (simp add: cache_hit_def)
  have run: "\<exists>st. run_passes use_cache all_symbols ?c all_segments = Inr st
             \<and> processed_segments st =
                 map (scan_segment all_symbols all_segments) (filter should_scan all_segments)
             \<and> map unique_id (split_calls st) = map unique_id (filter should_split all_segments)
             \<and> no_hits_counted st
             \<and> cache st = store_all all_segments ?c"
    if h: "distinct (map unique_id all_segments)
            \<and> (\<forall>s \<in> set all_segments. unique_id s \<noteq> ''__options__'' \<and> seg_cache s \<noteq> Scalar SNone)"
  proof -
    have m1: "\<forall>s \<in> set all_segments.
        \<not> (use_cache \<and> should_scan s \<and> cache_hit (cache (init_state ?c)) s)"
      using h miss by (auto simp: init_state_ok)
    from scan_loop_all_miss [OF init_state_ok(1) m1, of all_symbols all_segments]
    obtain st1 where s1: "scan_loop use_cache all_symbols all_segments all_segments (init_state ?c) = Inr st1"
      and p1: "no_hits_counted st1" "cache st1 = ?c" "split_calls st1 = []"
        "processed_segments st1 = map (scan_segment all_symbols all_segments) (filter should_scan all_segments)"
        "segments_done st1 = map ?f all_segments"
      by (auto simp: init_state_ok)
    have d: "distinct (map unique_id (segments_done st1))"
      using h p1(5) by (simp only: ids_scanned)
    have m2: "\<forall>s \<in> set (segments_done st1).
        \<not> py_eq (seg_cache s) (cache_get (cache st1) (unique_id s))"
    proof
      fix s assume "s \<in> set (segments_done st1)"
      with p1(5) obtain s0 where s0: "s0 \<in> set all_segments" "s = ?f s0" by auto
      with h have "unique_id s0 \<noteq> ''__options__''" "seg_cache s0 \<noteq> Scalar SNone" by auto
      with s0(2) have "unique_id s \<noteq> ''__options__''" "seg_cache s \<noteq> Scalar SNone" by auto
      then show "\<not> py_eq (seg_cache s) (cache_get (cache st1) (unique_id s))"
        unfolding p1(2) by (rule fresh_store_miss)
    qed
    from split_loop_all_miss [OF d m2] obtain st2 where
      s2: "split_loop True (segments_done st1) st1 = Inr st2"
      and p2: "cache st2 = store_all (segments_done st1) (cache st1)"
        "split_calls st2 = split_calls st1 @ filter should_split (segments_done st1)"
        "seg_cached st2 = seg_cached st1" "processed_segments st2 = processed_segments st1"
      by blast
    from s1 s2 assms(1) have "run_passes use_cache all_symbols ?c all_segments = Inr st2"
      by (simp add: run_passes_def)
    moreover from p2(4) p1(4) have "processed_segments st2 =
        map (scan_segment all_symbols all_segments) (filter should_scan all_segments)" by simp
    moreover from p2(2) p1(3,5) have
      "map unique_id (split_calls st2) = map unique_id (filter should_split all_segments)"
      by (simp add: split_ids_scanned)
    moreover from p2(3) p1(1) have "no_hits_counted st2" by (simp add: no_hits_counted_def)
    moreover from p2(1) p1(2,5) have "cache st2 = store_all all_segments ?c"
      by (simp add: store_all_scanned)
    ultimately show ?thesis by blast
  qed
  have whole: "after_checksum ops all_symbols load_result config rom_bytes use_cache verbose =
            err_bind (initialize_config_segments ops config) (\<lambda>segs.
            err_bind (run_passes use_cache all_symbols ?c segs) (\<lambda>st.
            err_bind (do_statistics rom_bytes) (\<lambda>_. Inr st)))"
    if "load_cache use_cache verbose load_result = PDict stored"
    using inv that by (simp add: after_checksum_def)
  from inv miss run whole show ?thesis by (simp only:) blast
qed

theorem options_change_invalidates_cache_witness:
  "\<not> py_eq (cache_get warm_cache ''__options__'') (config_get (demo_config [] 2) ''options'')
   \<and> cache_hit warm_cache seg_code
   \<and> invalidate_cache True (PDict warm_cache) (demo_config [] 2) =
        Inr [''__options__'' \<mapsto> YDict [(''x'', Scalar (SInt 2))]]
   \<and> \<not> cache_hit [''__options__'' \<mapsto> YDict [(''x'', Scalar (SInt 2))]] seg_code
   \<and> distinct (map unique_id [seg_code, seg_bin])
   \<and> map_sum id (\<lambda>st. (map name (processed_segments st), map name (split_calls st),
                          seg_cached st ''code'', seg_cached st ''bin''))
        (run_passes True [] [''__options__'' \<mapsto> YDict [(''x'', Scalar (SInt 2))]]
           [seg_code, seg_bin]) =
        Inr ([''boot'', ''assets''], [''boot'', ''assets''], Some 0, Some 0)"
proof -
  have a: "True" by simp
  have b: "\<not> py_eq (cache_get warm_cache ''__options__'') (config_get (demo_config [] 2) ''options'')"
    by (simp add: run_defs demo_config_def dyadic_eq_def)
  from options_change_invalidates_cache [OF a b, of "[seg_code, seg_bin]" "[]"] b
  show ?thesis
    by (simp add: run_defs demo_config_def dyadic_eq_def)
qed

text \<open>
  C3 as stated fails in its last part: after the invalidation a segment can still be a
  cache hit. Of two segments with one id and one fingerprint the first, a miss, writes the
  fingerprint into the fresh store and the second hits it: the hit is counted and the
  second segment is not split. A segment whose fingerprint is \<open>None\<close> hits the missing
  entry, and a segment whose id is the reserved key hits the options block when that is
  its fingerprint.
\<close>

theorem options_change_hit_counterexample:
  "\<not> py_eq (cache_get warm_cache ''__options__'') (config_get (demo_config [] 2) ''options'')
   \<and> invalidate_cache True (PDict warm_cache) (demo_config [] 2) =
        Inr [''__options__'' \<mapsto> YDict [(''x'', Scalar (SInt 2))]]
   \<and> map_sum id (\<lambda>st. (map name (processed_segments st), map name (split_calls st),
                          seg_cached st ''code''))
        (run_passes True [] [''__options__'' \<mapsto> YDict [(''x'', Scalar (SInt 2))]]
           [seg_code, seg_code]) =
        Inr ([''boot'', ''boot''], [''boot''], Some 1)
   \<and> cache_hit [''__options__'' \<mapsto> YDict [(''x'', Scalar (SInt 2))]]
        (seg_code\<lparr>seg_cache := Scalar SNone\<rparr>)
   \<and> cache_hit [''__options__'' \<mapsto> YDict [(''x'', Scalar (SInt 2))]]
        (seg_code\<lparr>unique_id := ''__options__'', seg_cache := YDict [(''x'', Scalar (SInt 2))]\<rparr>)"
  by (simp add: run_defs demo_config_def dyadic_eq_def)

section \<open>The counter of the cache hits\<close>

text \<open>
  The split loop counts a hit under \<open>typ\<close>, which the scan loop has left at the type of
  the last segment: whatever the segment that hits, no other counter moves.
\<close>

lemma scan_loop_last_typ:
  "scan_loop use_cache all_symbols all_segments rest st = Inr st' \<Longrightarrow>
   (no_hits_counted st \<longrightarrow> no_hits_counted st')
   \<and> last_typ st' = (if rest = [] then last_typ st else Some (bucket (last rest)))"
proof (induction rest arbitrary: st)
  case Nil
  then show ?case by simp
next
  case (Cons segment rest)
  let ?st1 = "count_size segment st"
  from Cons.prems obtain st2 where
    r: "scan_loop use_cache all_symbols all_segments rest st2 = Inr st'"
    and l: "last_typ st2 = last_typ ?st1" and c: "seg_cached st2 = seg_cached ?st1"
    by (auto simp: Let_def split: if_splits option.splits)
  from c count_size_no_hits [of st segment] have "no_hits_counted st \<longrightarrow> no_hits_counted st2"
    by (simp add: no_hits_counted_def)
  with Cons.IH [OF r] l show ?case by simp
qed

lemma split_loop_other_buckets:
  "split_loop use_cache segs st = Inr st' \<Longrightarrow> last_typ st \<noteq> Some t \<Longrightarrow>
   seg_cached st' t = seg_cached st t"
proof (induction segs arbitrary: st)
  case Nil
  then show ?case by simp
next
  case (Cons segment rest)
  from Cons.prems(1) obtain st1 where
    r: "split_loop use_cache rest st1 = Inr st'"
    and l: "last_typ st1 = last_typ st"
    and c: "seg_cached st1 t = seg_cached st t"
    using Cons.prems(2)
    by (auto simp: Let_def split: if_splits option.splits)
  from Cons.IH [OF r] l c Cons.prems(2) show ?case by simp
qed

lemma hits_only_under_last_bucket:
  assumes "run_passes use_cache all_symbols c all_segments = Inr st"
    and "all_segments \<noteq> []" and "t \<noteq> bucket (last all_segments)"
  shows "seg_cached st t = None \<or> seg_cached st t = Some 0"
proof -
  from assms(1) obtain st1 where
    s: "scan_loop use_cache all_symbols all_segments all_segments (init_state c) = Inr st1"
    and p: "split_loop use_cache (segments_done st1) st1 = Inr st"
    by (auto simp: run_passes_def err_bind_eq_Inr)
  from scan_loop_last_typ [OF s] assms(2) have
    "no_hits_counted st1" "last_typ st1 = Some (bucket (last all_segments))"
    by (simp_all add: init_state_ok)
  with split_loop_other_buckets [OF p, of t] assms(3) show ?thesis
    by (cases "seg_cached st1 t") (auto simp: no_hits_counted_def)
qed

text \<open>
  C4 fails on the source. With the cache holding the current options and the fingerprint
  of \<open>seg_code\<close>, of type \<open>code\<close>, followed in the list by \<open>seg_bin\<close>, of type \<open>bin\<close>,
  the only cache hit of the run is that of \<open>seg_code\<close>; it is counted under \<open>bin\<close>, and
  the counter of \<open>code\<close> stays 0.
\<close>

theorem cache_hit_counted_under_last_bucket:
  "bucket seg_code = ''code'' \<and> bucket seg_bin = ''bin''
   \<and> cache_hit warm_cache seg_code \<and> \<not> cache_hit warm_cache seg_bin
   \<and> invalidate_cache True (PDict warm_cache) (demo_config [] 1) = Inr warm_cache
   \<and> map_sum id (\<lambda>st. (seg_cached st ''code'', seg_cached st ''bin''))
        (run_passes True [] warm_cache [seg_code, seg_bin]) = Inr (Some 0, Some 1)"
  by (simp add: run_defs demo_config_def dyadic_eq_def)

section \<open>Loading the cache\<close>

text \<open>
  Every exception that opening or unpickling the cache file raises is caught: the cache
  is the empty dict and the run is the run on a cache file that holds the empty dict.
\<close>

lemma load_exception_degrades:
  "load_cache use_cache verbose (Inl exn) = PDict Map.empty
   \<and> main ops sha1_hexdigest all_symbols (Inl exn) config rom_bytes use_cache verbose =
     main ops sha1_hexdigest all_symbols (Inr (PDict Map.empty)) config rom_bytes use_cache verbose"
  by (simp add: load_cache_def main_def after_checksum_def)

text \<open>
  C7 fails on the source for a cache file whose data unpickle, without any exception, to
  something that is not a dict. With \<open>verbose\<close> off nothing inside the \<open>try\<close> touches the
  object loaded, and the first \<open>cache.get\<close>, outside the \<open>try\<close>, ends the run with an
  \<open>AttributeError\<close> before any segment is initialized. With \<open>verbose\<close> on, the same file
  degrades to the empty cache, as a file that fails to unpickle does with \<open>verbose\<close>
  on or off: on the target \<open>demo_rom\<close> these runs scan and split both segments.
\<close>

theorem cache_not_dict_aborts:
  "load_cache True False (Inr PNotDict) = PNotDict
   \<and> main basic_ops demo_digest [] (Inr PNotDict)
        (demo_config ''DA39A3EE5E6B4B0D3255BFEF95601890AFD80709'' 1) demo_rom True False =
      Inl AttributeError
   \<and> load_cache True True (Inr PNotDict) = PDict Map.empty
   \<and> map_sum id (\<lambda>st. (map name (processed_segments st), map name (split_calls st)))
        (main basic_ops demo_digest [] (Inr PNotDict)
           (demo_config ''DA39A3EE5E6B4B0D3255BFEF95601890AFD80709'' 1) demo_rom True True) =
      Inr ([''header'', ''main''], [''header'', ''main''])
   \<and> load_cache True False (Inl UnpicklingError) = PDict Map.empty
   \<and> map_sum id (\<lambda>st. (map name (processed_segments st), map name (split_calls st)))
        (main basic_ops demo_digest [] (Inl UnpicklingError)
           (demo_config ''DA39A3EE5E6B4B0D3255BFEF95601890AFD80709'' 1) demo_rom True False) =
      Inr ([''header'', ''main''], [''header'', ''main''])"
  by (simp add: main_defs init_defs run_defs invalidate_cache_def dyadic_eq_def)

section \<open>The segments value and the statistics\<close>

text \<open>
  A \<open>segments\<close> value that is an empty mapping gives no segments, and a run on an empty
  target, with nothing else wrong, ends in the division of \<open>do_statistics\<close>.
\<close>

lemma empty_mapping_no_segments:
  "initialize_config_segments ops [(''segments'', YDict [])] = Inr []"
  by (simp add: initialize_config_segments_def)

lemma empty_target_division:
  "main basic_ops demo_digest [] (Inr (PDict Map.empty))
     (demo_config ''DA39A3EE5E6B4B0D3255BFEF95601890AFD80709'' 1) [] True False =
   Inl ZeroDivisionError"
  by (simp add: main_defs init_defs run_defs invalidate_cache_def dyadic_eq_def)

section \<open>The checksum\<close>

text \<open>
  C8. The digest of \<open>hashlib\<close> being in lower case, a configuration that declares no
  checksum goes on to the cache and the segments; one that declares a string goes on
  exactly when the string and the digest are equal up to the case of the letters, and
  otherwise the run ends with the mismatch error, whatever the segment types, the
  descriptors, the symbols and the cache are: no segment is constructed before.
\<close>

theorem checksum_gate:
  assumes "lower (sha1_hexdigest rom_bytes) = sha1_hexdigest rom_bytes"
  shows "(map_of config ''sha1'' = None \<longrightarrow>
            main ops sha1_hexdigest all_symbols load_result config rom_bytes use_cache verbose =
            after_checksum ops all_symbols load_result config rom_bytes use_cache verbose)
       \<and> (\<forall>declared. map_of config ''sha1'' = Some (Scalar (SStr declared)) \<longrightarrow>
            (lower declared \<noteq> lower (sha1_hexdigest rom_bytes) \<longrightarrow>
               main ops sha1_hexdigest all_symbols load_result config rom_bytes use_cache verbose =
               Inl (LogError (''sha1 mismatch: expected '' @ lower declared @ '', was ''
                              @ sha1_hexdigest rom_bytes)))
          \<and> (lower declared = lower (sha1_hexdigest rom_bytes) \<longrightarrow>
               main ops sha1_hexdigest all_symbols load_result config rom_bytes use_cache verbose =
               after_checksum ops all_symbols load_result config rom_bytes use_cache verbose))"
  using assms by (simp add: main_def check_sha1_def Let_def)

theorem checksum_gate_witness:
  "lower (demo_digest demo_rom) = demo_digest demo_rom
   \<and> map_of (demo_config ''DA39A3EE5E6B4B0D3255BFEF95601890AFD80709'' 1) ''sha1'' =
       Some (Scalar (SStr ''DA39A3EE5E6B4B0D3255BFEF95601890AFD80709''))
   \<and> lower ''DA39A3EE5E6B4B0D3255BFEF95601890AFD80709'' = lower (demo_digest demo_rom)
   \<and> main basic_ops demo_digest [] (Inr (PDict Map.empty))
        (demo_config ''DA39A3EE5E6B4B0D3255BFEF95601890AFD80709'' 1) demo_rom True False =
      after_checksum basic_ops [] (Inr (PDict Map.empty))
        (demo_config ''DA39A3EE5E6B4B0D3255BFEF95601890AFD80709'' 1) demo_rom True False
   \<and> lower ''da39a3ee5e6b4b0d3255bfef95601890afd80700'' \<noteq> lower (demo_digest demo_rom)
   \<and> main basic_ops demo_digest [] (Inr (PDict Map.empty))
        (demo_config ''da39a3ee5e6b4b0d3255bfef95601890afd80700'' 1) demo_rom True False =
      Inl (LogError (''sha1 mismatch: expected da39a3ee5e6b4b0d3255bfef95601890afd80700, was da39a3ee5e6b4b0d3255bfef95601890afd80709''))"
proof -
  have l: "lower (demo_digest demo_rom) = demo_digest demo_rom"
    by (simp add: demo_digest_def lower_def lower_char_def)
  from checksum_gate [where sha1_hexdigest = demo_digest and rom_bytes = demo_rom
      and config = "demo_config ''DA39A3EE5E6B4B0D3255BFEF95601890AFD80709'' 1"
      and ops = basic_ops and all_symbols = "[]" and load_result = "Inr (PDict Map.empty)"
      and use_cache = True and verbose = False, OF l]
    checksum_gate [where sha1_hexdigest = demo_digest and rom_bytes = demo_rom
      and config = "demo_config ''da39a3ee5e6b4b0d3255bfef95601890afd80700'' 1"
      and ops = basic_ops and all_symbols = "[]" and load_result = "Inr (PDict Map.empty)"
      and use_cache = True and verbose = False, OF l]
  show ?thesis
    by (simp add: demo_config_def demo_digest_def lower_def lower_char_def)
qed

end
